theory Spec2Isabelle
  imports Main "HOL-Library.Word" "HOL-Library.AList" "HOL-Library.Multiset"
begin

section \<open>Package reporting: data model\<close>

text \<open>
  The Go types of \<^verbatim>\<open>reporting\<close> are embedded as follows.
  \<^item> \<^verbatim>\<open>int\<close> is the 64-bit two's complement integer of the usual targets
    (amd64, arm64): a \<open>64 word\<close>, read with \<open>sint\<close> and compared with the signed
    orders \<open>\<le>s\<close> and \<open><s\<close>; \<open>+\<close> and \<open>-\<close> wrap around as in Go.
  \<^item> \<^verbatim>\<open>githubv4.Int\<close> is \<^verbatim>\<open>int32\<close>: a \<open>32 word\<close>; the conversion
    \<^verbatim>\<open>int(x)\<close> is the sign extension \<open>scast\<close>.
  \<^item> \<^verbatim>\<open>githubv4.String\<close> is \<open>string\<close>, \<^verbatim>\<open>githubv4.Boolean\<close> is \<open>bool\<close>.
  \<^item> A Go map is an association list with distinct keys; assignment
    \<^verbatim>\<open>m[k] = v\<close> is \<open>AList.update k v m\<close>, \<^verbatim>\<open>len(m)\<close> is its length, and
    \<^verbatim>\<open>range m\<close> visits its entries in an order the runtime chooses.
\<close>

type_synonym go_int = "64 word"
type_synonym githubv4_Int = "32 word"

text \<open>The element type of the four per-category slices: the repository and the
  \<^verbatim>\<open>Contributions.TotalCount\<close> of the one-field inner struct.\<close>

record Repository =
  Name :: string
  URL :: string

record ByRepository =
  Repository :: Repository
  TotalCount :: githubv4_Int

record ContributionsCollection =
  HasAnyContributions :: bool
  HasActivityInThePast :: bool
  RestrictedContributionsCount :: githubv4_Int
  TotalCommitContributions :: githubv4_Int
  TotalIssueContributions :: githubv4_Int
  TotalPullRequestContributions :: githubv4_Int
  TotalPullRequestReviewContributions :: githubv4_Int
  TotalRepositoriesWithContributedIssues :: githubv4_Int
  TotalRepositoriesWithContributedCommits :: githubv4_Int
  TotalRepositoriesWithContributedPullRequests :: githubv4_Int
  TotalRepositoriesWithContributedPullRequestReviews :: githubv4_Int
  CommitContributionsByRepository :: "ByRepository list"
  IssueContributionsByRepository :: "ByRepository list"
  PullRequestContributionsByRepository :: "ByRepository list"
  PullRequestReviewContributionsByRepository :: "ByRepository list"

record UserResult =
  Login :: string
  ContributionsCollection :: ContributionsCollection

record QueryResult =
  User :: UserResult

record AggregatedResults =
  Timestamp :: go_int
  TotalCommitContributions :: go_int
  TotalRepositories :: go_int
  TotalOtherContributions :: go_int

record Credential =
  Username :: string
  Token :: string

type_synonym Credentials = "Credential list"

text \<open>
  \<^verbatim>\<open>Client\<close> is a pointer to a \<^verbatim>\<open>githubv4.Client\<close>: \<open>None\<close> is \<^verbatim>\<open>nil\<close>,
  \<open>Some t\<close> the client that authenticates with the OAuth token \<open>t\<close>.
\<close>

record Reporter =
  Client :: "string option"
  User :: string
  LastYear :: go_int
  FirstYear :: go_int

datatype error =
  InvalidUser string
  | QueryFailure string

text \<open>The zero values \<^verbatim>\<open>QueryResult{}\<close>, \<^verbatim>\<open>Reporter{}\<close> and \<^verbatim>\<open>AggregatedResults{}\<close>.\<close>

definition zero_QueryResult :: QueryResult where
  "zero_QueryResult =
     \<lparr>QueryResult.User =
        \<lparr>Login = [],
         ContributionsCollection =
           \<lparr>HasAnyContributions = False,
            HasActivityInThePast = False,
            RestrictedContributionsCount = 0,
            ContributionsCollection.TotalCommitContributions = 0,
            TotalIssueContributions = 0,
            TotalPullRequestContributions = 0,
            TotalPullRequestReviewContributions = 0,
            TotalRepositoriesWithContributedIssues = 0,
            TotalRepositoriesWithContributedCommits = 0,
            TotalRepositoriesWithContributedPullRequests = 0,
            TotalRepositoriesWithContributedPullRequestReviews = 0,
            CommitContributionsByRepository = [],
            IssueContributionsByRepository = [],
            PullRequestContributionsByRepository = [],
            PullRequestReviewContributionsByRepository = []\<rparr>\<rparr>\<rparr>"

definition zero_Reporter :: Reporter where
  "zero_Reporter =
     \<lparr>Client = None, Reporter.User = [], LastYear = 0, FirstYear = 0\<rparr>"

definition zero_AggregatedResults :: AggregatedResults where
  "zero_AggregatedResults =
     \<lparr>Timestamp = 0,
      AggregatedResults.TotalCommitContributions = 0,
      TotalRepositories = 0,
      TotalOtherContributions = 0\<rparr>"


section \<open>NewReporter\<close>

text \<open>
  Modelled from the spec: the constant \<^verbatim>\<open>DefaultFirstContributionYear\<close> is used by
  \<^verbatim>\<open>NewReporter\<close> but its declaration is not among the sources; the specification
  gives the floor as the year 2000, which is also the default of the \<^verbatim>\<open>-firstyear\<close>
  flag in \<^verbatim>\<open>main.go\<close>.
\<close>

definition DefaultFirstContributionYear :: go_int where
  "DefaultFirstContributionYear = 2000"

text \<open>
  \<^verbatim>\<open>NewReporter\<close> reads the clock once: \<open>thisYear\<close> stands for
  \<^verbatim>\<open>time.Now().UTC().Year()\<close>. The receiver \<open>r\<close> is not used by the body. The two
  warnings written to the logger are output only and are left out.
\<close>

definition NewReporter ::
  "Reporter \<Rightarrow> go_int \<Rightarrow> string option \<Rightarrow> string \<Rightarrow> go_int \<Rightarrow> go_int
     \<Rightarrow> Reporter \<times> error option" where
  "NewReporter r thisYear client user firstYear lastYear =
     (if user = [] then
        (zero_Reporter,
         Some (InvalidUser (''user '' @ user @ '' cannot be blank in constructing a query'')))
      else
        let firstYear1 =
              (if firstYear <s DefaultFirstContributionYear \<or> thisYear <s firstYear
               then DefaultFirstContributionYear else firstYear);
            lastYear1 = (if thisYear <s lastYear then thisYear else lastYear);
            lastYear2 =
              (if lastYear1 = 0 \<or> lastYear1 <s firstYear1 then thisYear else lastYear1)
        in (\<lparr>Client = client, Reporter.User = user,
             LastYear = lastYear2, FirstYear = firstYear1\<rparr>, None))"


section \<open>Aggregate and Report\<close>

text \<open>
  \<^verbatim>\<open>uniqueRepositories\<close> is a \<^verbatim>\<open>map[string]int\<close>. Reading a key that is absent
  gives the zero value, so \<^verbatim>\<open>m[k] = m[k] + 1\<close> is \<open>count_repository\<close>.
\<close>

definition count_of :: "(string \<times> go_int) list \<Rightarrow> string \<Rightarrow> go_int" where
  "count_of m k = (case map_of m k of None \<Rightarrow> 0 | Some c \<Rightarrow> c)"

definition count_repository ::
  "(string \<times> go_int) list \<Rightarrow> ByRepository \<Rightarrow> (string \<times> go_int) list" where
  "count_repository uniqueRepositories repository =
     AList.update (Name (Repository repository))
       (count_of uniqueRepositories (Name (Repository repository)) + 1)
       uniqueRepositories"

text \<open>One iteration of the outer \<^verbatim>\<open>range\<close> loop of \<^verbatim>\<open>Aggregate\<close>, on the pair of
  the running totals and the map of repository names.\<close>

definition Aggregate_step ::
  "AggregatedResults \<times> (string \<times> go_int) list \<Rightarrow> string \<times> QueryResult
     \<Rightarrow> AggregatedResults \<times> (string \<times> go_int) list" where
  "Aggregate_step acc entry =
     (case acc of (aggregatedResults, uniqueRepositories) \<Rightarrow>
      case entry of (userYear, queryResult) \<Rightarrow>
        let cc = ContributionsCollection (QueryResult.User queryResult);
            aggregatedResults1 = aggregatedResults
              \<lparr>AggregatedResults.TotalCommitContributions :=
                 AggregatedResults.TotalCommitContributions aggregatedResults
                   + scast (ContributionsCollection.TotalCommitContributions cc)\<rparr>;
            aggregatedResults2 = aggregatedResults1
              \<lparr>TotalOtherContributions :=
                 TotalOtherContributions aggregatedResults1
                   + (scast (TotalIssueContributions cc)
                      + scast (TotalPullRequestContributions cc)
                      + scast (TotalPullRequestReviewContributions cc))\<rparr>;
            u1 = foldl count_repository uniqueRepositories
                   (CommitContributionsByRepository cc);
            u2 = foldl count_repository u1 (IssueContributionsByRepository cc);
            u3 = foldl count_repository u2 (PullRequestContributionsByRepository cc);
            u4 = foldl count_repository u3 (PullRequestReviewContributionsByRepository cc)
        in (aggregatedResults2, u4))"

text \<open>
  \<^verbatim>\<open>Aggregate\<close> receives the store through a pointer and ranges over it; the list
  \<open>queryResults\<close> is the store in the order in which the runtime visits it. \<open>now\<close>
  stands for \<^verbatim>\<open>int(time.Now().Unix())\<close>. The returned error is always \<^verbatim>\<open>nil\<close>.
  \<^verbatim>\<open>len\<close> of a Go map always fits an \<^verbatim>\<open>int\<close>.
\<close>

definition Aggregate ::
  "Reporter \<Rightarrow> go_int \<Rightarrow> (string \<times> QueryResult) list
     \<Rightarrow> AggregatedResults \<times> error option" where
  "Aggregate r now queryResults =
     (case foldl Aggregate_step (zero_AggregatedResults, []) queryResults of
        (aggregatedResults, uniqueRepositories) \<Rightarrow>
          (aggregatedResults
             \<lparr>TotalRepositories := of_nat (length uniqueRepositories),
              Timestamp := now\<rparr>,
           None))"

text \<open>\<^verbatim>\<open>strconv.Itoa\<close>: the decimal digits of an \<^verbatim>\<open>int\<close>, with a leading minus
  sign for a negative one. A digit is read from the table of digit characters; the
  index is always below ten.\<close>

definition digit_of :: "nat \<Rightarrow> char" where
  "digit_of d = ''0123456789'' ! d"

fun digits10 :: "nat \<Rightarrow> string" where
  "digits10 n =
     (if n < 10 then [digit_of n] else digits10 (n div 10) @ [digit_of (n mod 10)])"

declare digits10.simps [simp del]

definition Itoa :: "go_int \<Rightarrow> string" where
  "Itoa i =
     (if i <s 0 then CHR ''-'' # digits10 (nat (- sint i)) else digits10 (nat (sint i)))"

text \<open>
  \<^verbatim>\<open>json.MarshalIndent(aggregatedResults, "", "  ")\<close> on a struct of four
  \<^verbatim>\<open>int\<close> fields: the fields in declaration order under their JSON names, one per
  line, indented by two spaces. Encoding such a struct cannot fail.
\<close>

definition json_field :: "string \<Rightarrow> go_int \<Rightarrow> string" where
  "json_field name v = ''  '' @ [CHR 0x22] @ name @ [CHR 0x22] @ '': '' @ Itoa v"

definition MarshalIndent :: "AggregatedResults \<Rightarrow> string \<times> error option" where
  "MarshalIndent a =
     (''{'' @ [CHR 0x0A]
        @ json_field ''timestamp'' (Timestamp a) @ '','' @ [CHR 0x0A]
        @ json_field ''totalCommitContributions''
            (AggregatedResults.TotalCommitContributions a) @ '','' @ [CHR 0x0A]
        @ json_field ''totalRepositories'' (TotalRepositories a) @ '','' @ [CHR 0x0A]
        @ json_field ''totalOtherContributions'' (TotalOtherContributions a) @ [CHR 0x0A]
        @ ''}'',
      None)"

text \<open>\<^verbatim>\<open>Report\<close> aggregates the package-level store \<^verbatim>\<open>queryResults\<close>, which is
  passed explicitly here, and encodes the summary.\<close>

definition Report ::
  "Reporter \<Rightarrow> go_int \<Rightarrow> (string \<times> QueryResult) list \<Rightarrow> string \<times> error option" where
  "Report r now queryResults =
     (case Aggregate r now queryResults of
        (aggregatedResults, err) \<Rightarrow>
          if err \<noteq> None then ([], err)
          else case MarshalIndent aggregatedResults of
                 (b, err2) \<Rightarrow> if err2 \<noteq> None then ([], err2) else (b, None))"

text \<open>
  The quantities the properties are stated with, read off a single snapshot: its
  commit count and its other-contribution count as Go \<^verbatim>\<open>int\<close>s, and the repository
  names of its four per-category lists.
\<close>

definition commits_of :: "QueryResult \<Rightarrow> go_int" where
  "commits_of q =
     scast (ContributionsCollection.TotalCommitContributions
              (ContributionsCollection (QueryResult.User q)))"

definition others_of :: "QueryResult \<Rightarrow> go_int" where
  "others_of q =
     (let cc = ContributionsCollection (QueryResult.User q)
      in scast (TotalIssueContributions cc)
         + scast (TotalPullRequestContributions cc)
         + scast (TotalPullRequestReviewContributions cc))"

definition repository_names :: "QueryResult \<Rightarrow> string list" where
  "repository_names q =
     (let cc = ContributionsCollection (QueryResult.User q)
      in map (\<lambda>c. Name (Repository c))
           (CommitContributionsByRepository cc
            @ IssueContributionsByRepository cc
            @ PullRequestContributionsByRepository cc
            @ PullRequestReviewContributionsByRepository cc))"

definition store_names :: "(string \<times> QueryResult) list \<Rightarrow> string list" where
  "store_names queryResults = concat (map (\<lambda>e. repository_names (snd e)) queryResults)"


definition commit_count :: "QueryResult \<Rightarrow> int" where
  "commit_count q =
     sint (ContributionsCollection.TotalCommitContributions
             (ContributionsCollection (QueryResult.User q)))"

definition other_count :: "QueryResult \<Rightarrow> int" where
  "other_count q =
     (let cc = ContributionsCollection (QueryResult.User q)
      in sint (TotalIssueContributions cc)
         + sint (TotalPullRequestContributions cc)
         + sint (TotalPullRequestReviewContributions cc))"


section \<open>Collect\<close>

text \<open>
  \<^verbatim>\<open>Collect\<close> talks to the remote service, writes the package-level store
  \<^verbatim>\<open>queryResults\<close> and may end the process, so it is a function on an explicit state.
  \<^item> \<open>queryResults\<close> is the store, keyed by \<^verbatim>\<open><user>-<year>\<close>.
  \<^item> \<open>world\<close> is whatever the remote service depends on and changes.
  \<^item> \<open>calls\<close> records every call of \<^verbatim>\<open>r.Client.Query\<close> in the order made: the
    client and login it was made for, the target year that fixes the window
    \<^verbatim>\<open>from\<close>/\<^verbatim>\<open>to\<close>, the error returned, and the value left in
    \<^verbatim>\<open>queryResult\<close>. It is an observation of the run, not data of the program.
\<close>

record QueryCall =
  call_client :: "string option"
  call_login :: string
  call_year :: go_int
  call_error :: "error option"
  call_result :: QueryResult

record 'w state =
  queryResults :: "(string \<times> QueryResult) list"
  world :: 'w
  calls :: "QueryCall list"

text \<open>
  The remote query \<^verbatim>\<open>r.Client.Query(ctx, &queryResult, variables)\<close>: from the token
  of the client, the login, the target year, the current content of \<^verbatim>\<open>queryResult\<close>
  (the call decodes into the same variable on every iteration) and the world, it gives
  the error, the new content of \<^verbatim>\<open>queryResult\<close> and the new world.
\<close>

type_synonym 'w remote =
  "string \<Rightarrow> string \<Rightarrow> go_int \<Rightarrow> QueryResult \<Rightarrow> 'w \<Rightarrow> (error option \<times> QueryResult) \<times> 'w"

text \<open>
  How a call ends: it returns its \<^verbatim>\<open>error\<close> value; or \<^verbatim>\<open>log.Fatal\<close> has
  printed and called \<^verbatim>\<open>os.Exit(1)\<close>, which ends the process; or a method was called
  through a \<^verbatim>\<open>nil\<close> client, which panics.
\<close>

datatype outcome = Returned "error option" | Exited | Panicked

datatype 'w step = Stop outcome "'w state" | Continue QueryResult "'w state"

text \<open>
  The body of the \<^verbatim>\<open>for\<close> loop for one \<open>targetYear\<close>. After \<^verbatim>\<open>log.Fatal(err)\<close>
  the statement \<^verbatim>\<open>return err\<close> is never reached. \<open>Stop (Returned None)\<close> is the
  \<^verbatim>\<open>break\<close>, after which \<^verbatim>\<open>Collect\<close> returns its named result, still \<^verbatim>\<open>nil\<close>.
\<close>

definition Collect_body ::
  "'w remote \<Rightarrow> Reporter \<Rightarrow> go_int \<Rightarrow> QueryResult \<Rightarrow> 'w state \<Rightarrow> 'w step" where
  "Collect_body remote r targetYear queryResult st =
     (case Client r of
        None \<Rightarrow> Stop Panicked st
      | Some token \<Rightarrow>
          (case remote token (Reporter.User r) targetYear queryResult (world st) of
             ((err, queryResult1), w) \<Rightarrow>
               let st1 = st\<lparr>world := w,
                            calls := calls st
                              @ [\<lparr>call_client = Client r, call_login = Reporter.User r,
                                  call_year = targetYear, call_error = err,
                                  call_result = queryResult1\<rparr>]\<rparr>
               in if err \<noteq> None then Stop Exited st1
                  else
                    let st2 =
                          (if Login (QueryResult.User queryResult1) \<noteq> [] then
                             let userYear = Reporter.User r @ ''-'' @ Itoa targetYear
                             in st1\<lparr>queryResults :=
                                      AList.update userYear queryResult1 (queryResults st1)\<rparr>
                           else st1);
                        hasActivityInThePast =
                          HasActivityInThePast
                            (ContributionsCollection (QueryResult.User queryResult1))
                    in if \<not> hasActivityInThePast then Stop (Returned None) st2
                       else Continue queryResult1 st2))"

text \<open>
  The loop \<^verbatim>\<open>for targetYear := r.LastYear; targetYear >= r.FirstYear; targetYear--\<close>.
  The decrement wraps around at the smallest \<^verbatim>\<open>int\<close>, so the loop need not end:
  the result is \<open>None\<close> when it does not.
\<close>

partial_function (option) Collect_loop ::
  "'w remote \<Rightarrow> Reporter \<Rightarrow> go_int \<Rightarrow> QueryResult \<Rightarrow> 'w state
     \<Rightarrow> (outcome \<times> 'w state) option" where
  "Collect_loop remote r targetYear queryResult st =
     (if FirstYear r \<le>s targetYear then
        (case Collect_body remote r targetYear queryResult st of
           Stop out st1 \<Rightarrow> Some (out, st1)
         | Continue queryResult1 st1 \<Rightarrow>
             Collect_loop remote r (targetYear - 1) queryResult1 st1)
      else Some (Returned None, st))"

definition Collect :: "'w remote \<Rightarrow> Reporter \<Rightarrow> 'w state \<Rightarrow> (outcome \<times> 'w state) option" where
  "Collect remote r st = Collect_loop remote r (LastYear r) zero_QueryResult st"


text \<open>
  Abbreviations for the statements about \<^verbatim>\<open>Collect\<close>: the
  \<^verbatim>\<open>hasActivityInThePast\<close> flag of the response to a call; the store after the
  response \<open>q1\<close> for year \<open>y\<close> has been handled; and what holds of the calls \<open>cs\<close>
  made by the loop when it is entered with target year \<open>y\<close> and ends with \<open>out\<close>.
\<close>

definition call_flag :: "QueryCall \<Rightarrow> bool" where
  "call_flag c =
     HasActivityInThePast (ContributionsCollection (QueryResult.User (call_result c)))"

definition store_after ::
  "Reporter \<Rightarrow> go_int \<Rightarrow> QueryResult \<Rightarrow> (string \<times> QueryResult) list
     \<Rightarrow> (string \<times> QueryResult) list" where
  "store_after r y q1 qs =
     (if Login (QueryResult.User q1) \<noteq> []
      then AList.update (Reporter.User r @ ''-'' @ Itoa y) q1 qs else qs)"

definition trace_post :: "Reporter \<Rightarrow> go_int \<Rightarrow> outcome \<Rightarrow> QueryCall list \<Rightarrow> bool" where
  "trace_post r y out cs \<longleftrightarrow>
     (\<forall>i<length cs. sint (call_year (cs ! i)) = sint y - int i)
     \<and> (\<forall>c\<in>set cs. sint (FirstYear r) \<le> sint (call_year c)
                    \<and> call_login c = Reporter.User r \<and> call_client c = Client r)
     \<and> (\<forall>i. Suc i < length cs \<longrightarrow> call_error (cs ! i) = None \<and> call_flag (cs ! i))
     \<and> (out = Returned None \<and> (cs \<noteq> [] \<longrightarrow> call_flag (last cs))
          \<longrightarrow> int (length cs) = max 0 (sint y - sint (FirstYear r) + 1))
     \<and> (out = Exited \<longleftrightarrow> cs \<noteq> [] \<and> call_error (last cs) \<noteq> None)
     \<and> (out = Panicked \<longrightarrow> Client r = None \<and> cs = [])
     \<and> (\<forall>e. out \<noteq> Returned (Some e))"


text \<open>
  The key under which \<^verbatim>\<open>Collect\<close> stores the response to a call (the login of a
  call is the user of the Reporter that made it), and how the store \<open>qs1\<close> after the
  calls \<open>cs\<close> relates to the store \<open>qs\<close> before them: every entry is an old one or the
  response, with a non-empty login, of a call without error under the key of that call;
  no key is lost; every call without error and with a non-empty login has its key in
  the store; keys stay distinct.
\<close>

definition call_key :: "QueryCall \<Rightarrow> string" where
  "call_key c = call_login c @ ''-'' @ Itoa (call_year c)"

definition store_post ::
  "(string \<times> QueryResult) list \<Rightarrow> QueryCall list \<Rightarrow> (string \<times> QueryResult) list \<Rightarrow> bool" where
  "store_post qs cs qs1 \<longleftrightarrow>
     (\<forall>(k, v)\<in>set qs1.
         (k, v) \<in> set qs
         \<or> (\<exists>c\<in>set cs. call_error c = None \<and> k = call_key c \<and> v = call_result c
                 \<and> Login (QueryResult.User v) \<noteq> []))
     \<and> fst ` set qs \<subseteq> fst ` set qs1
     \<and> (\<forall>c\<in>set cs. call_error c = None \<and> Login (QueryResult.User (call_result c)) \<noteq> []
            \<longrightarrow> call_key c \<in> fst ` set qs1)
     \<and> (distinct (map fst qs) \<longrightarrow> distinct (map fst qs1))"


section \<open>The credential loop of main\<close>

record Configuration =
  credentialsAreEncrypted :: bool
  credentialsFilePath :: string
  firstReportingYear :: go_int
  lastReportingYear :: go_int

text \<open>
  The loop over the credentials, after the flags and the credentials file have been
  read. For each credential a client is made from its token; an error of
  \<^verbatim>\<open>NewReporter\<close> ends the process through \<^verbatim>\<open>log.Fatalf\<close>; an error returned by
  \<^verbatim>\<open>Collect\<close> is printed and the loop goes on. The clock is read as \<open>thisYear\<close>;
  the year is taken not to change while the loop runs.
\<close>

fun credential_loop ::
  "'w remote \<Rightarrow> go_int \<Rightarrow> Configuration \<Rightarrow> Credential list \<Rightarrow> Reporter \<Rightarrow> 'w state
     \<Rightarrow> (outcome \<times> Reporter \<times> 'w state) option" where
  "credential_loop remote thisYear config [] reporter st = Some (Returned None, reporter, st)"
| "credential_loop remote thisYear config (credential # rest) reporter st =
     (case NewReporter reporter thisYear (Some (Token credential)) (Username credential)
             (firstReportingYear config) (lastReportingYear config) of
        (reporter1, err) \<Rightarrow>
          if err \<noteq> None then Some (Exited, reporter1, st)
          else
            (case Collect remote reporter1 st of
               None \<Rightarrow> None
             | Some (Returned err1, st1) \<Rightarrow>
                 credential_loop remote thisYear config rest reporter1 st1
             | Some (Exited, st1) \<Rightarrow> Some (Exited, reporter1, st1)
             | Some (Panicked, st1) \<Rightarrow> Some (Panicked, reporter1, st1)))"

text \<open>
  \<open>main_run\<close> is \<^verbatim>\<open>main\<close> from the credential loop on, started on the empty store:
  it gives how the process ended, the report that was printed if the loop was left
  normally, and the final state. \<open>now\<close> is the clock reading of \<^verbatim>\<open>Aggregate\<close>.
\<close>

definition main_run ::
  "'w remote \<Rightarrow> go_int \<Rightarrow> go_int \<Rightarrow> Configuration \<Rightarrow> Credential list \<Rightarrow> 'w
     \<Rightarrow> (outcome \<times> string option \<times> 'w state) option" where
  "main_run remote thisYear now config credentials w =
     (case credential_loop remote thisYear config credentials zero_Reporter
             \<lparr>queryResults = [], world = w, calls = []\<rparr> of
        None \<Rightarrow> None
      | Some (Returned err, reporter, st) \<Rightarrow>
          Some (Returned None, Some (fst (Report reporter now (queryResults st))), st)
      | Some (Exited, reporter, st) \<Rightarrow> Some (Exited, None, st)
      | Some (Panicked, reporter, st) \<Rightarrow> Some (Panicked, None, st))"

text \<open>The Reporter that the loop makes for a credential; the receiver of
  \<^verbatim>\<open>NewReporter\<close> is not read, so any one gives the same.\<close>

definition credential_reporter :: "go_int \<Rightarrow> Configuration \<Rightarrow> Credential \<Rightarrow> Reporter" where
  "credential_reporter thisYear config credential =
     fst (NewReporter zero_Reporter thisYear (Some (Token credential)) (Username credential)
            (firstReportingYear config) (lastReportingYear config))"


text \<open>What holds of the calls \<open>cs\<close> made for a credential whose collection returned
  normally: the user name is not empty, and the calls are those of \<^verbatim>\<open>Collect\<close> on the
  Reporter of the credential.\<close>

definition credential_calls ::
  "go_int \<Rightarrow> Configuration \<Rightarrow> Credential \<Rightarrow> QueryCall list \<Rightarrow> bool" where
  "credential_calls thisYear config credential cs \<longleftrightarrow>
     Username credential \<noteq> []
     \<and> trace_post (credential_reporter thisYear config credential)
           (LastYear (credential_reporter thisYear config credential)) (Returned None) cs"


section \<open>Example data\<close>

definition repo :: "string \<Rightarrow> string \<Rightarrow> ByRepository" where
  "repo n u = \<lparr>Repository = \<lparr>Name = n, URL = u\<rparr>, TotalCount = 1\<rparr>"

definition snapshot ::
  "string \<Rightarrow> bool \<Rightarrow> githubv4_Int \<Rightarrow> githubv4_Int \<Rightarrow> githubv4_Int \<Rightarrow> githubv4_Int
     \<Rightarrow> ByRepository list \<Rightarrow> ByRepository list \<Rightarrow> ByRepository list \<Rightarrow> ByRepository list
     \<Rightarrow> QueryResult" where
  "snapshot login past commits issues prs reviews cs is ps rs =
     \<lparr>QueryResult.User =
        \<lparr>Login = login,
         ContributionsCollection =
           \<lparr>HasAnyContributions = True,
            HasActivityInThePast = past,
            RestrictedContributionsCount = 0,
            ContributionsCollection.TotalCommitContributions = commits,
            TotalIssueContributions = issues,
            TotalPullRequestContributions = prs,
            TotalPullRequestReviewContributions = reviews,
            TotalRepositoriesWithContributedIssues = of_nat (length is),
            TotalRepositoriesWithContributedCommits = of_nat (length cs),
            TotalRepositoriesWithContributedPullRequests = of_nat (length ps),
            TotalRepositoriesWithContributedPullRequestReviews = of_nat (length rs),
            CommitContributionsByRepository = cs,
            IssueContributionsByRepository = is,
            PullRequestContributionsByRepository = ps,
            PullRequestReviewContributionsByRepository = rs\<rparr>\<rparr>\<rparr>"

text \<open>The two-user scenario: A with 10 commits, 2 issues, 1 pull request, no review, in
  repositories x and y; B with 5 commits, no issue, 3 pull requests, 2 reviews, in
  repositories y and z.\<close>

definition store_AB :: "(string \<times> QueryResult) list" where
  "store_AB =
     [(''A-2024'', snapshot ''A'' False 10 2 1 0
                     [repo ''x'' ''https://github.com/A/x'', repo ''y'' ''https://github.com/A/y'']
                     [] [] []),
      (''B-2024'', snapshot ''B'' False 5 0 3 2
                     [repo ''y'' ''https://github.com/A/y'']
                     [] [repo ''z'' ''https://github.com/B/z''] [])]"

text \<open>Two snapshots that each list a repository named repoA, under different URLs, once
  as a commit contribution and once as an issue contribution; and a store that lists
  the name once.\<close>

definition store_repoA :: "(string \<times> QueryResult) list" where
  "store_repoA =
     [(''A-2024'', snapshot ''A'' False 1 0 0 0
                     [repo ''repoA'' ''https://github.com/A/repoA''] [] [] []),
      (''B-2024'', snapshot ''B'' False 0 1 0 0
                     [] [repo ''repoA'' ''https://github.com/B/repoA''] [] [])]"

definition store_repoA_once :: "(string \<times> QueryResult) list" where
  "store_repoA_once =
     [(''C-2024'', snapshot ''C'' False 0 0 0 1
                     [] [] [] [repo ''repoA'' ''https://github.com/C/repoA''])]"


text \<open>
  Remote services for the examples; their world counts the requests served.
  \<open>remote_example y1 y0\<close> answers every query without error: the login is resolved
  except for the year \<open>y1\<close>, and \<^verbatim>\<open>hasActivityInThePast\<close> holds exactly for the
  years after \<open>y0\<close>. \<open>remote_failing\<close> fails every query and leaves
  \<^verbatim>\<open>queryResult\<close> as it is.
\<close>

definition example_response :: "go_int option \<Rightarrow> go_int \<Rightarrow> string \<Rightarrow> go_int \<Rightarrow> QueryResult" where
  "example_response y1 y0 login year =
     snapshot (if Some year = y1 then [] else login) (y0 <s year) 1 0 0 0 [] [] [] []"

definition remote_example :: "go_int option \<Rightarrow> go_int \<Rightarrow> nat remote" where
  "remote_example y1 y0 token login year q w =
     ((None, example_response y1 y0 login year), Suc w)"

definition remote_failing :: "nat remote" where
  "remote_failing token login year q w =
     ((Some (QueryFailure ''non-200 OK status code: 401 Unauthorized''), q), Suc w)"

definition octocat :: Reporter where
  "octocat = \<lparr>Client = Some ''token'', Reporter.User = ''octocat'',
              LastYear = 2024, FirstYear = 2000\<rparr>"

definition state0 :: "nat state" where
  "state0 = \<lparr>queryResults = [], world = 0, calls = []\<rparr>"


text \<open>The state after \<open>remote_example y1 y0\<close> has answered the query of the Reporter
  \<open>r\<close> for the year \<open>y\<close>.\<close>

definition example_after ::
  "Reporter \<Rightarrow> go_int option \<Rightarrow> go_int \<Rightarrow> go_int \<Rightarrow> nat state \<Rightarrow> nat state" where
  "example_after r y1 y0 y st =
     st\<lparr>world := Suc (world st),
        calls := calls st
          @ [\<lparr>call_client = Client r, call_login = Reporter.User r, call_year = y,
              call_error = None,
              call_result = example_response y1 y0 (Reporter.User r) y\<rparr>],
        queryResults :=
          store_after r y (example_response y1 y0 (Reporter.User r) y) (queryResults st)\<rparr>"


text \<open>A run of \<^verbatim>\<open>main\<close> with the default flags and two credentials.\<close>

definition example_config :: Configuration where
  "example_config =
     \<lparr>credentialsAreEncrypted = False, credentialsFilePath = ''gh-tokens.json'',
      firstReportingYear = 2000, lastReportingYear = 2024\<rparr>"

definition example_credentials :: "Credential list" where
  "example_credentials =
     [\<lparr>Username = ''A'', Token = ''token-A''\<rparr>, \<lparr>Username = ''B'', Token = ''token-B''\<rparr>]"

text \<open>The Reporters of the two credentials when the clock shows 2024, and the state
  after \<open>remote_example None 2023\<close> has answered the queries for 2024 and 2023 of the
  first and then of the second.\<close>

definition reporterA :: Reporter where
  "reporterA = \<lparr>Client = Some ''token-A'', Reporter.User = ''A'',
                LastYear = 2024, FirstYear = 2000\<rparr>"

definition reporterB :: Reporter where
  "reporterB = \<lparr>Client = Some ''token-B'', Reporter.User = ''B'',
                LastYear = 2024, FirstYear = 2000\<rparr>"

definition state_AB :: "nat state" where
  "state_AB =
     example_after reporterB None 2023 2023
       (example_after reporterB None 2023 2024
          (example_after reporterA None 2023 2023
             (example_after reporterA None 2023 2024 state0)))"

text \<open>The report printed for a summary with timestamp 1730498450, four commits, no
  repository and no other contribution.\<close>

definition report_AB :: string where
  "report_AB =
     ''{'' @ [CHR 0x0A]
     @ ''  '' @ [CHR 0x22] @ ''timestamp'' @ [CHR 0x22] @ '': 1730498450,'' @ [CHR 0x0A]
     @ ''  '' @ [CHR 0x22] @ ''totalCommitContributions'' @ [CHR 0x22] @ '': 4,''
     @ [CHR 0x0A]
     @ ''  '' @ [CHR 0x22] @ ''totalRepositories'' @ [CHR 0x22] @ '': 0,'' @ [CHR 0x0A]
     @ ''  '' @ [CHR 0x22] @ ''totalOtherContributions'' @ [CHR 0x22] @ '': 0'' @ [CHR 0x0A]
     @ ''}''"


section \<open>Properties of NewReporter\<close>

text \<open>
  Claim C3. For a non-empty user and any requested pair of years, \<^verbatim>\<open>NewReporter\<close>
  succeeds and the effective range satisfies
  \<open>2000 \<le> FirstYear \<le> LastYear \<le> thisYear\<close>: a requested first year below 2000 or
  above the current year becomes 2000; a requested last year above the current year,
  equal to zero, or below the effective first year becomes the current year; otherwise
  the requested years are kept. The current year is read from the clock, and the clock
  is taken to show a year that is not before the floor
  \<^verbatim>\<open>DefaultFirstContributionYear\<close>.
\<close>

theorem NewReporter_effective_range:
  assumes "user \<noteq> []" and "DefaultFirstContributionYear \<le>s thisYear"
  shows "\<exists>rep. NewReporter r thisYear client user firstYear lastYear = (rep, None)
           \<and> Reporter.User rep = user \<and> Client rep = client
           \<and> 2000 \<le> sint (FirstYear rep)
           \<and> sint (FirstYear rep) \<le> sint (LastYear rep)
           \<and> sint (LastYear rep) \<le> sint thisYear
           \<and> FirstYear rep =
               (if sint firstYear < 2000 \<or> sint thisYear < sint firstYear
                then 2000 else firstYear)
           \<and> LastYear rep =
               (if sint thisYear < sint lastYear \<or> lastYear = 0
                   \<or> sint lastYear < sint (FirstYear rep)
                then thisYear else lastYear)"
  using assms
  by (auto simp: NewReporter_def DefaultFirstContributionYear_def Let_def
                 word_sless_alt word_sle_eq)

theorem NewReporter_effective_range_witness:
  "[CHR ''a''] \<noteq> [] \<and> DefaultFirstContributionYear \<le>s 2024
   \<and> (\<exists>rep. NewReporter zero_Reporter 2024 (Some ''t'') [CHR ''a''] 1990 2030 = (rep, None)
           \<and> Reporter.User rep = [CHR ''a''] \<and> Client rep = Some ''t''
           \<and> 2000 \<le> sint (FirstYear rep)
           \<and> sint (FirstYear rep) \<le> sint (LastYear rep)
           \<and> sint (LastYear rep) \<le> sint (2024 :: go_int)
           \<and> FirstYear rep = 2000 \<and> LastYear rep = 2024)"
  using NewReporter_effective_range
          [of "[CHR ''a'']" 2024 zero_Reporter "Some ''t''" 1990 2030]
  by (simp add: DefaultFirstContributionYear_def)

text \<open>
  Claim C7. With an empty user identifier \<^verbatim>\<open>NewReporter\<close> returns the zero-valued
  Reporter together with the invalid-user error, whatever the receiver, the clock, the
  client and the two years are.
\<close>

theorem NewReporter_empty_user:
  "NewReporter r thisYear client [] firstYear lastYear =
     (zero_Reporter, Some (InvalidUser ''user  cannot be blank in constructing a query''))"
  by (simp add: NewReporter_def)

text \<open>
  Claim C8. Normalisation is idempotent: a pair of years that already satisfies
  \<open>2000 \<le> firstYear \<le> lastYear \<le> thisYear\<close> is returned unchanged.
\<close>

theorem NewReporter_idempotent:
  assumes "user \<noteq> []"
    and "2000 \<le> sint firstYear" and "sint firstYear \<le> sint lastYear"
    and "sint lastYear \<le> sint thisYear"
  shows "NewReporter r thisYear client user firstYear lastYear =
           (\<lparr>Client = client, Reporter.User = user,
             LastYear = lastYear, FirstYear = firstYear\<rparr>, None)"
  using assms
  by (auto simp: NewReporter_def DefaultFirstContributionYear_def Let_def
                 word_sless_alt word_sle_eq)

theorem NewReporter_idempotent_witness:
  "[CHR ''a''] \<noteq> [] \<and> 2000 \<le> sint (2010 :: go_int)
   \<and> sint (2010 :: go_int) \<le> sint (2020 :: go_int)
   \<and> sint (2020 :: go_int) \<le> sint (2024 :: go_int)
   \<and> NewReporter zero_Reporter 2024 None [CHR ''a''] 2010 2020 =
         (\<lparr>Client = None, Reporter.User = [CHR ''a''],
           LastYear = 2020, FirstYear = 2010\<rparr>, None)"
  using NewReporter_idempotent [of "[CHR ''a'']" 2010 2020 2024 zero_Reporter None]
  by simp


section \<open>Properties of Aggregate\<close>

subsection \<open>The map of repository names\<close>

lemma count_repository_keys:
  "fst ` set (count_repository u c) = insert (Name (Repository c)) (fst ` set u)"
  by (simp add: count_repository_def dom_update)

lemma count_repository_distinct:
  "distinct (map fst u) \<Longrightarrow> distinct (map fst (count_repository u c))"
  by (simp add: count_repository_def distinct_update)

lemma foldl_count_repository_keys:
  "fst ` set (foldl count_repository u cs)
     = fst ` set u \<union> (\<lambda>c. Name (Repository c)) ` set cs"
  by (induction cs arbitrary: u) (auto simp: count_repository_keys)

lemma foldl_count_repository_distinct:
  "distinct (map fst u) \<Longrightarrow> distinct (map fst (foldl count_repository u cs))"
  by (induction cs arbitrary: u) (auto simp: count_repository_distinct)

lemma Aggregate_step_keys:
  "fst ` set (snd (Aggregate_step (a, u) e)) = fst ` set u \<union> set (repository_names (snd e))"
  by (cases e)
     (auto simp: Aggregate_step_def Let_def repository_names_def foldl_count_repository_keys)

lemma Aggregate_step_distinct:
  "distinct (map fst u) \<Longrightarrow> distinct (map fst (snd (Aggregate_step (a, u) e)))"
  by (cases e) (simp add: Aggregate_step_def Let_def foldl_count_repository_distinct)

lemma Aggregate_step_commits:
  "AggregatedResults.TotalCommitContributions (fst (Aggregate_step (a, u) e))
     = AggregatedResults.TotalCommitContributions a + commits_of (snd e)"
  by (cases e) (simp add: Aggregate_step_def Let_def commits_of_def)

lemma Aggregate_step_others:
  "TotalOtherContributions (fst (Aggregate_step (a, u) e))
     = TotalOtherContributions a + others_of (snd e)"
  by (cases e) (simp add: Aggregate_step_def Let_def others_of_def)

lemma foldl_Aggregate_step_keys:
  "fst ` set (snd (foldl Aggregate_step (a, u) qs)) = fst ` set u \<union> set (store_names qs)"
proof (induction qs arbitrary: a u)
  case Nil
  then show ?case by (simp add: store_names_def)
next
  case (Cons e qs)
  obtain a' u' where step: "Aggregate_step (a, u) e = (a', u')"
    by (cases "Aggregate_step (a, u) e")
  have "fst ` set u' = fst ` set u \<union> set (repository_names (snd e))"
    using Aggregate_step_keys [of a u e] by (simp add: step)
  then show ?case
    using Cons.IH [of a' u'] by (auto simp: step store_names_def)
qed

lemma foldl_Aggregate_step_distinct:
  "distinct (map fst u) \<Longrightarrow> distinct (map fst (snd (foldl Aggregate_step (a, u) qs)))"
proof (induction qs arbitrary: a u)
  case Nil
  then show ?case by simp
next
  case (Cons e qs)
  obtain a' u' where step: "Aggregate_step (a, u) e = (a', u')"
    by (cases "Aggregate_step (a, u) e")
  have "distinct (map fst u')"
    using Aggregate_step_distinct [OF Cons.prems, of a e] by (simp add: step)
  then show ?case
    using Cons.IH [of u' a'] by (simp add: step)
qed

lemma foldl_Aggregate_step_commits:
  "AggregatedResults.TotalCommitContributions (fst (foldl Aggregate_step (a, u) qs))
     = AggregatedResults.TotalCommitContributions a
       + sum_list (map (\<lambda>e. commits_of (snd e)) qs)"
proof (induction qs arbitrary: a u)
  case Nil
  then show ?case by simp
next
  case (Cons e qs)
  obtain a' u' where step: "Aggregate_step (a, u) e = (a', u')"
    by (cases "Aggregate_step (a, u) e")
  have "AggregatedResults.TotalCommitContributions a'
          = AggregatedResults.TotalCommitContributions a + commits_of (snd e)"
    using Aggregate_step_commits [of a u e] by (simp add: step)
  then show ?case
    using Cons.IH [of a' u'] by (simp add: step add.assoc)
qed

lemma foldl_Aggregate_step_others:
  "TotalOtherContributions (fst (foldl Aggregate_step (a, u) qs))
     = TotalOtherContributions a + sum_list (map (\<lambda>e. others_of (snd e)) qs)"
proof (induction qs arbitrary: a u)
  case Nil
  then show ?case by simp
next
  case (Cons e qs)
  obtain a' u' where step: "Aggregate_step (a, u) e = (a', u')"
    by (cases "Aggregate_step (a, u) e")
  have "TotalOtherContributions a' = TotalOtherContributions a + others_of (snd e)"
    using Aggregate_step_others [of a u e] by (simp add: step)
  then show ?case
    using Cons.IH [of a' u'] by (simp add: step add.assoc)
qed

lemma foldl_Aggregate_step_length:
  "length (snd (foldl Aggregate_step (a, []) qs)) = card (set (store_names qs))"
proof -
  let ?u = "snd (foldl Aggregate_step (a, []) qs)"
  have "distinct (map fst ?u)"
    by (rule foldl_Aggregate_step_distinct) simp
  then have "card (set (map fst ?u)) = length (map fst ?u)"
    by (rule distinct_card)
  moreover have "set (map fst ?u) = set (store_names qs)"
    using foldl_Aggregate_step_keys [of a "[]" qs] by simp
  ultimately show ?thesis by simp
qed

lemma Aggregate_fields:
  "snd (Aggregate r now qs) = None"
  "Timestamp (fst (Aggregate r now qs)) = now"
  "AggregatedResults.TotalCommitContributions (fst (Aggregate r now qs))
     = sum_list (map (\<lambda>e. commits_of (snd e)) qs)"
  "TotalOtherContributions (fst (Aggregate r now qs))
     = sum_list (map (\<lambda>e. others_of (snd e)) qs)"
  "TotalRepositories (fst (Aggregate r now qs)) = of_nat (card (set (store_names qs)))"
  using foldl_Aggregate_step_commits [of zero_AggregatedResults "[]" qs]
        foldl_Aggregate_step_others [of zero_AggregatedResults "[]" qs]
        foldl_Aggregate_step_length [of zero_AggregatedResults qs]
  by (simp_all add: Aggregate_def zero_AggregatedResults_def case_prod_beta)

subsection \<open>Sums of 32-bit counts in 64-bit arithmetic\<close>

lemma commits_of_count: "commits_of q = word_of_int (commit_count q)"
  unfolding commits_of_def commit_count_def by (rule scast_eq)

lemma others_of_count: "others_of q = word_of_int (other_count q)"
  unfolding others_of_def other_count_def Let_def by (simp only: scast_eq of_int_add)

lemma sum_list_word_of_int:
  "sum_list (map (\<lambda>x. word_of_int (f x)) xs) = (word_of_int (sum_list (map f xs)) :: go_int)"
  by (induction xs) simp_all

lemma sum_list_abs_bound:
  fixes f :: "'a \<Rightarrow> int"
  assumes "\<And>x. \<bar>f x\<bar> \<le> B"
  shows "\<bar>sum_list (map f xs)\<bar> \<le> int (length xs) * B"
proof (induction xs)
  case Nil
  then show ?case by simp
next
  case (Cons x xs)
  have "\<bar>f x + sum_list (map f xs)\<bar> \<le> \<bar>f x\<bar> + \<bar>sum_list (map f xs)\<bar>"
    by (rule abs_triangle_ineq)
  also have "\<dots> \<le> B + int (length xs) * B"
    using assms [of x] Cons.IH by linarith
  finally show ?case by (simp add: algebra_simps)
qed

lemma sint_word_of_int_small:
  assumes "\<bar>k\<bar> < 2 ^ 63"
  shows "sint (word_of_int k :: go_int) = k"
proof -
  have "- (2 ^ 63) \<le> k" and "k < 2 ^ 63"
    using assms by linarith+
  then have "signed_take_bit 63 k = k"
    by (simp add: signed_take_bit_int_eq_self)
  then show ?thesis
    by (simp add: sint_sbintrunc')
qed

lemma commit_count_bound: "\<bar>commit_count q\<bar> \<le> 2 ^ 31"
proof -
  let ?c = "ContributionsCollection.TotalCommitContributions
              (ContributionsCollection (QueryResult.User q))"
  have "- (2 ^ 31) \<le> sint ?c" "sint ?c < 2 ^ 31"
    using sint_ge [of ?c] sint_lt [of ?c] by simp_all
  then show ?thesis by (simp add: commit_count_def)
qed

lemma other_count_bound: "\<bar>other_count q\<bar> \<le> 3 * 2 ^ 31"
proof -
  let ?cc = "ContributionsCollection (QueryResult.User q)"
  have "- (2 ^ 31) \<le> sint (TotalIssueContributions ?cc)"
       "sint (TotalIssueContributions ?cc) < 2 ^ 31"
       "- (2 ^ 31) \<le> sint (TotalPullRequestContributions ?cc)"
       "sint (TotalPullRequestContributions ?cc) < 2 ^ 31"
       "- (2 ^ 31) \<le> sint (TotalPullRequestReviewContributions ?cc)"
       "sint (TotalPullRequestReviewContributions ?cc) < 2 ^ 31"
    using sint_ge [of "TotalIssueContributions ?cc"] sint_lt [of "TotalIssueContributions ?cc"]
          sint_ge [of "TotalPullRequestContributions ?cc"]
          sint_lt [of "TotalPullRequestContributions ?cc"]
          sint_ge [of "TotalPullRequestReviewContributions ?cc"]
          sint_lt [of "TotalPullRequestReviewContributions ?cc"]
    by simp_all
  then show ?thesis by (simp add: other_count_def Let_def)
qed

lemma sint_sum_commits:
  assumes "length qs \<le> 2 ^ 30"
  shows "sint (sum_list (map (\<lambda>e. commits_of (snd e)) qs))
           = sum_list (map (\<lambda>e. commit_count (snd e)) qs)"
proof -
  have "\<bar>sum_list (map (\<lambda>e. commit_count (snd e)) qs)\<bar> \<le> int (length qs) * 2 ^ 31"
    by (rule sum_list_abs_bound) (rule commit_count_bound)
  also have "\<dots> \<le> 2 ^ 30 * 2 ^ 31"
    using assms by (simp add: mult_right_mono)
  finally have "\<bar>sum_list (map (\<lambda>e. commit_count (snd e)) qs)\<bar> < 2 ^ 63"
    by simp
  then show ?thesis
    by (simp add: commits_of_count sum_list_word_of_int sint_word_of_int_small)
qed

lemma sint_sum_others:
  assumes "length qs \<le> 2 ^ 30"
  shows "sint (sum_list (map (\<lambda>e. others_of (snd e)) qs))
           = sum_list (map (\<lambda>e. other_count (snd e)) qs)"
proof -
  have "\<bar>sum_list (map (\<lambda>e. other_count (snd e)) qs)\<bar> \<le> int (length qs) * (3 * 2 ^ 31)"
    by (rule sum_list_abs_bound) (rule other_count_bound)
  also have "\<dots> \<le> 2 ^ 30 * (3 * 2 ^ 31)"
    using assms by (simp add: mult_right_mono)
  finally have "\<bar>sum_list (map (\<lambda>e. other_count (snd e)) qs)\<bar> < 2 ^ 63"
    by simp
  then show ?thesis
    by (simp add: others_of_count sum_list_word_of_int sint_word_of_int_small)
qed

lemma sint_of_nat_small:
  assumes "n < 2 ^ 63"
  shows "sint (of_nat n :: go_int) = int n"
  using sint_word_of_int_small [of "int n"] assms by simp

lemma sum_list_mset_cong:
  fixes f :: "'a \<Rightarrow> 'b::comm_monoid_add"
  assumes "mset xs = mset ys"
  shows "sum_list (map f xs) = sum_list (map f ys)"
proof -
  have "sum_list (map f xs) = sum_mset (image_mset f (mset xs))"
    by (metis mset_map sum_mset_sum_list)
  also have "\<dots> = sum_mset (image_mset f (mset ys))"
    by (simp add: assms)
  also have "\<dots> = sum_list (map f ys)"
    by (metis mset_map sum_mset_sum_list)
  finally show ?thesis .
qed

lemma set_store_names: "set (store_names qs) = (\<Union>e\<in>set qs. set (repository_names (snd e)))"
  by (simp add: store_names_def)

lemma Aggregate_eq:
  "Aggregate r now qs =
     (\<lparr>Timestamp = now,
       AggregatedResults.TotalCommitContributions = sum_list (map (\<lambda>e. commits_of (snd e)) qs),
       TotalRepositories = of_nat (card (set (store_names qs))),
       TotalOtherContributions = sum_list (map (\<lambda>e. others_of (snd e)) qs)\<rparr>,
      None)"
  by (intro prod_eqI AggregatedResults.equality) (simp_all add: Aggregate_fields)


subsection \<open>The claims on Aggregate\<close>

text \<open>
  Claim C4. On the complete store, \<^verbatim>\<open>Aggregate\<close> returns no error, the sum of the
  commit counts of all snapshots, the sum of the issue, pull-request and review counts
  of all snapshots, and the number of distinct repository names in the four
  per-category lists of all snapshots. The sums are the Go \<^verbatim>\<open>int\<close> sums; for a store
  of at most \<open>2 ^ 30\<close> snapshots they are the exact integer sums. The two-user scenario
  of the specification is the instance \<open>Aggregate_totals_witness\<close>: 15, 8 and 3.
\<close>

theorem Aggregate_totals:
  "snd (Aggregate r now qs) = None
   \<and> AggregatedResults.TotalCommitContributions (fst (Aggregate r now qs))
       = word_of_int (\<Sum>e\<leftarrow>qs. commit_count (snd e))
   \<and> TotalOtherContributions (fst (Aggregate r now qs))
       = word_of_int (\<Sum>e\<leftarrow>qs. other_count (snd e))
   \<and> TotalRepositories (fst (Aggregate r now qs)) = of_nat (card (set (store_names qs)))
   \<and> (length qs \<le> 2 ^ 30 \<longrightarrow>
        sint (AggregatedResults.TotalCommitContributions (fst (Aggregate r now qs)))
          = (\<Sum>e\<leftarrow>qs. commit_count (snd e))
        \<and> sint (TotalOtherContributions (fst (Aggregate r now qs)))
          = (\<Sum>e\<leftarrow>qs. other_count (snd e)))
   \<and> (card (set (store_names qs)) < 2 ^ 63 \<longrightarrow>
        sint (TotalRepositories (fst (Aggregate r now qs)))
          = int (card (set (store_names qs))))"
proof -
  have "(\<Sum>e\<leftarrow>qs. commits_of (snd e)) = word_of_int (\<Sum>e\<leftarrow>qs. commit_count (snd e))"
    by (simp only: commits_of_count sum_list_word_of_int)
  moreover have "(\<Sum>e\<leftarrow>qs. others_of (snd e)) = word_of_int (\<Sum>e\<leftarrow>qs. other_count (snd e))"
    by (simp only: others_of_count sum_list_word_of_int)
  ultimately show ?thesis
    using sint_sum_commits [of qs] sint_sum_others [of qs]
    by (simp add: Aggregate_fields sint_of_nat_small)
qed

theorem Aggregate_totals_witness:
  "length store_AB \<le> 2 ^ 30 \<and> card (set (store_names store_AB)) < 2 ^ 63
   \<and> snd (Aggregate zero_Reporter 1730498450 store_AB) = None
   \<and> sint (AggregatedResults.TotalCommitContributions
              (fst (Aggregate zero_Reporter 1730498450 store_AB))) = 15
   \<and> sint (TotalOtherContributions (fst (Aggregate zero_Reporter 1730498450 store_AB))) = 8
   \<and> sint (TotalRepositories (fst (Aggregate zero_Reporter 1730498450 store_AB))) = 3"
proof -
  have names: "store_names store_AB = [''x'', ''y'', ''y'', ''z'']"
    by (simp add: store_names_def store_AB_def repository_names_def snapshot_def repo_def)
  have commits: "(\<Sum>e\<leftarrow>store_AB. commit_count (snd e)) = 15"
    by (simp add: store_AB_def commit_count_def snapshot_def)
  have others: "(\<Sum>e\<leftarrow>store_AB. other_count (snd e)) = 8"
    by (simp add: store_AB_def other_count_def snapshot_def)
  have len: "length store_AB = 2"
    by (simp add: store_AB_def)
  show ?thesis
    using Aggregate_totals [of zero_Reporter 1730498450 store_AB]
    by (simp add: names commits others len)
qed

text \<open>
  Claim C5. Only the name of a repository enters the count: a name that occurs in the
  store, however often, in whichever snapshots and category lists and under whichever
  URLs, adds exactly one to \<^verbatim>\<open>TotalRepositories\<close>, and two stores with the same set
  of names have the same \<^verbatim>\<open>TotalRepositories\<close>. For the two snapshots that list
  repoA once as a commit and once as an issue contribution the count is 1.
\<close>

theorem Aggregate_repository_by_name:
  "(n \<in> set (store_names qs) \<longrightarrow>
      TotalRepositories (fst (Aggregate r now qs))
        = of_nat (card (set (store_names qs) - {n})) + 1)
   \<and> (set (store_names qs') = set (store_names qs) \<longrightarrow>
        TotalRepositories (fst (Aggregate r' now' qs'))
          = TotalRepositories (fst (Aggregate r now qs)))"
proof (intro conjI impI)
  assume n: "n \<in> set (store_names qs)"
  have "card (set (store_names qs)) = Suc (card (set (store_names qs) - {n}))"
    using n by (intro card.remove) simp_all
  then have "(of_nat (card (set (store_names qs))) :: go_int)
               = of_nat (card (set (store_names qs) - {n})) + 1"
    by (simp add: add.commute)
  then show "TotalRepositories (fst (Aggregate r now qs))
               = of_nat (card (set (store_names qs) - {n})) + 1"
    by (simp only: Aggregate_fields)
next
  assume "set (store_names qs') = set (store_names qs)"
  then show "TotalRepositories (fst (Aggregate r' now' qs'))
               = TotalRepositories (fst (Aggregate r now qs))"
    by (simp only: Aggregate_fields)
qed

theorem Aggregate_repository_by_name_witness:
  "''repoA'' \<in> set (store_names store_repoA)
   \<and> TotalRepositories (fst (Aggregate zero_Reporter 0 store_repoA)) = 1
   \<and> set (store_names store_repoA_once) = set (store_names store_repoA)
   \<and> TotalRepositories (fst (Aggregate zero_Reporter 0 store_repoA_once))
       = TotalRepositories (fst (Aggregate zero_Reporter 0 store_repoA))"
proof -
  have names: "store_names store_repoA = [''repoA'', ''repoA'']"
    by (simp add: store_names_def store_repoA_def repository_names_def snapshot_def repo_def)
  have names1: "store_names store_repoA_once = [''repoA'']"
    by (simp add: store_names_def store_repoA_once_def repository_names_def snapshot_def
          repo_def)
  show ?thesis
    using Aggregate_repository_by_name
            [of "''repoA''" store_repoA zero_Reporter 0 store_repoA_once zero_Reporter 0]
    by (simp add: names names1)
qed

text \<open>
  Claim C9. The three counts do not depend on the order in which the store is visited:
  two enumerations of the same entries give the same counts, and the whole results
  differ in the timestamp only.
\<close>

theorem Aggregate_order_independent:
  assumes "mset qs' = mset qs"
  shows "AggregatedResults.TotalCommitContributions (fst (Aggregate r now' qs'))
           = AggregatedResults.TotalCommitContributions (fst (Aggregate r now qs))
         \<and> TotalOtherContributions (fst (Aggregate r now' qs'))
           = TotalOtherContributions (fst (Aggregate r now qs))
         \<and> TotalRepositories (fst (Aggregate r now' qs'))
           = TotalRepositories (fst (Aggregate r now qs))
         \<and> Aggregate r now' qs' = (fst (Aggregate r now qs)\<lparr>Timestamp := now'\<rparr>, None)"
proof -
  have "set qs' = set qs"
    using assms by (rule mset_eq_setD)
  then have "set (store_names qs') = set (store_names qs)"
    by (simp add: set_store_names)
  moreover have "sum_list (map (\<lambda>e. commits_of (snd e)) qs')
                   = sum_list (map (\<lambda>e. commits_of (snd e)) qs)"
    using assms by (rule sum_list_mset_cong)
  moreover have "sum_list (map (\<lambda>e. others_of (snd e)) qs')
                   = sum_list (map (\<lambda>e. others_of (snd e)) qs)"
    using assms by (rule sum_list_mset_cong)
  ultimately show ?thesis
    by (simp add: Aggregate_eq)
qed

theorem Aggregate_order_independent_witness:
  "mset (rev store_AB) = mset store_AB
   \<and> AggregatedResults.TotalCommitContributions (fst (Aggregate zero_Reporter 7 (rev store_AB)))
       = AggregatedResults.TotalCommitContributions (fst (Aggregate zero_Reporter 5 store_AB))
   \<and> TotalOtherContributions (fst (Aggregate zero_Reporter 7 (rev store_AB)))
       = TotalOtherContributions (fst (Aggregate zero_Reporter 5 store_AB))
   \<and> TotalRepositories (fst (Aggregate zero_Reporter 7 (rev store_AB)))
       = TotalRepositories (fst (Aggregate zero_Reporter 5 store_AB))
   \<and> Aggregate zero_Reporter 7 (rev store_AB)
       = (fst (Aggregate zero_Reporter 5 store_AB)\<lparr>Timestamp := 7\<rparr>, None)"
  using Aggregate_order_independent [of "rev store_AB" store_AB zero_Reporter 7 5]
  by simp

section \<open>Properties of Collect\<close>

subsection \<open>Reporters made by NewReporter\<close>

lemma NewReporter_receiver:
  "NewReporter r thisYear client user firstYear lastYear
     = NewReporter zero_Reporter thisYear client user firstYear lastYear"
  by (simp add: NewReporter_def)

lemma NewReporter_None:
  assumes "NewReporter r thisYear client user firstYear lastYear = (rep, None)"
  shows "user \<noteq> []" and "Client rep = client" and "Reporter.User rep = user"
    and "2000 \<le> sint (FirstYear rep)"
  using assms
  by (auto simp: NewReporter_def DefaultFirstContributionYear_def Let_def word_sless_alt
           split: if_splits)

subsection \<open>The loop ends when the first year is not the smallest integer\<close>

lemma sint_pred:
  fixes y :: go_int
  assumes "- (2 ^ 63) < sint y"
  shows "sint (y - 1) = sint y - 1"
proof -
  have "sint y < 2 ^ 63"
    using sint_lt [of y] by simp
  then have "signed_take_bit 63 (sint y - 1) = sint y - 1"
    using assms by (simp add: signed_take_bit_int_eq_self)
  then show ?thesis
    by (simp add: sint_word_diff)
qed

lemma Collect_loop_total:
  assumes min: "- (2 ^ 63) < sint (FirstYear r)"
    and base: "\<And>y q st. \<not> FirstYear r \<le>s y \<Longrightarrow> P y q st (Returned None, st)"
    and stop: "\<And>y q st out st1.
                 FirstYear r \<le>s y \<Longrightarrow> Collect_body remote r y q st = Stop out st1
                 \<Longrightarrow> P y q st (out, st1)"
    and cont: "\<And>y q st q1 st1 res.
                 FirstYear r \<le>s y \<Longrightarrow> sint (y - 1) = sint y - 1
                 \<Longrightarrow> Collect_body remote r y q st = Continue q1 st1
                 \<Longrightarrow> P (y - 1) q1 st1 res \<Longrightarrow> P y q st res"
  shows "\<exists>res. Collect_loop remote r y q st = Some res \<and> P y q st res"
proof (induction "nat (sint y - sint (FirstYear r) + 1)" arbitrary: y q st)
  case 0
  then have "\<not> FirstYear r \<le>s y"
    by (simp add: word_sle_eq)
  then show ?case
    using base [of y q st] by (subst Collect_loop.simps) simp
next
  case (Suc n)
  show ?case
  proof (cases "FirstYear r \<le>s y")
    case False
    then show ?thesis
      using base [of y q st] by (subst Collect_loop.simps) simp
  next
    case True
    then have le: "sint (FirstYear r) \<le> sint y"
      by (simp add: word_sle_eq)
    show ?thesis
    proof (cases "Collect_body remote r y q st")
      case (Stop out st1)
      then show ?thesis
        using True stop [of y q st out st1] by (subst Collect_loop.simps) simp
    next
      case (Continue q1 st1)
      have pred: "sint (y - 1) = sint y - 1"
        using min le by (intro sint_pred) linarith
      have "n = nat (sint (y - 1) - sint (FirstYear r) + 1)"
        using Suc.hyps(2) pred by linarith
      then obtain res where res: "Collect_loop remote r (y - 1) q1 st1 = Some res"
        and P: "P (y - 1) q1 st1 res"
        using Suc.hyps(1) [of "y - 1" q1 st1] by blast
      have "P y q st res"
        using True pred Continue P by (rule cont)
      then show ?thesis
        using True Continue res by (subst Collect_loop.simps) simp
    qed
  qed
qed

subsection \<open>One iteration\<close>

lemma Collect_body_Stop:
  assumes "Collect_body remote r y q st = Stop out st1"
  shows "(Client r = None \<and> out = Panicked \<and> st1 = st)
         \<or> (\<exists>c. calls st1 = calls st @ [c] \<and> call_year c = y
                \<and> call_login c = Reporter.User r \<and> call_client c = Client r
                \<and> Client r \<noteq> None
                \<and> ((out = Exited \<and> call_error c \<noteq> None
                       \<and> queryResults st1 = queryResults st)
                    \<or> (out = Returned None \<and> call_error c = None \<and> \<not> call_flag c
                       \<and> queryResults st1 = store_after r y (call_result c) (queryResults st))))"
  using assms
  by (auto simp: Collect_body_def Let_def call_flag_def store_after_def
           split: option.splits prod.splits if_splits)

lemma Collect_body_Continue:
  assumes "Collect_body remote r y q st = Continue q1 st1"
  shows "\<exists>c. calls st1 = calls st @ [c] \<and> call_year c = y
             \<and> call_login c = Reporter.User r \<and> call_client c = Client r
             \<and> call_error c = None \<and> call_flag c \<and> call_result c = q1
             \<and> Client r \<noteq> None
             \<and> queryResults st1 = store_after r y q1 (queryResults st)"
  using assms
  by (auto simp: Collect_body_def Let_def call_flag_def store_after_def
           split: option.splits prod.splits if_splits)

subsection \<open>The calls of the loop\<close>

lemma trace_post_base:
  assumes "\<not> FirstYear r \<le>s y"
  shows "trace_post r y (Returned None) []"
  using assms by (simp add: trace_post_def word_sle_eq)

lemma trace_post_nil_Panicked:
  assumes "Client r = None"
  shows "trace_post r y Panicked []"
  using assms by (simp add: trace_post_def)

lemma trace_post_single:
  assumes "FirstYear r \<le>s y" and "call_year c = y"
    and "call_login c = Reporter.User r" and "call_client c = Client r"
    and "(out = Exited \<and> call_error c \<noteq> None)
         \<or> (out = Returned None \<and> call_error c = None \<and> \<not> call_flag c)"
  shows "trace_post r y out [c]"
  using assms by (auto simp: trace_post_def word_sle_eq)

lemma trace_post_Cons:
  assumes le: "FirstYear r \<le>s y" and pred: "sint (y - 1) = sint y - 1"
    and c: "call_year c = y" "call_login c = Reporter.User r" "call_client c = Client r"
           "call_error c = None" "call_flag c" "Client r \<noteq> None"
    and post: "trace_post r (y - 1) out cs"
  shows "trace_post r y out (c # cs)"
proof -
  have le': "sint (FirstYear r) \<le> sint y"
    using le by (simp add: word_sle_eq)
  have years: "\<forall>i<length (c # cs). sint (call_year ((c # cs) ! i)) = sint y - int i"
  proof (intro allI impI)
    fix i assume "i < length (c # cs)"
    then show "sint (call_year ((c # cs) ! i)) = sint y - int i"
      using post pred c(1) by (cases i) (auto simp: trace_post_def)
  qed
  have range: "\<forall>c'\<in>set (c # cs). sint (FirstYear r) \<le> sint (call_year c')
                    \<and> call_login c' = Reporter.User r \<and> call_client c' = Client r"
    using post c le' by (auto simp: trace_post_def)
  have flags: "\<forall>i. Suc i < length (c # cs)
                 \<longrightarrow> call_error ((c # cs) ! i) = None \<and> call_flag ((c # cs) ! i)"
  proof (intro allI impI)
    fix i assume "Suc i < length (c # cs)"
    then show "call_error ((c # cs) ! i) = None \<and> call_flag ((c # cs) ! i)"
      using post c by (cases i) (auto simp: trace_post_def)
  qed
  have full: "int (length (c # cs)) = max 0 (sint y - sint (FirstYear r) + 1)"
    if "out = Returned None" and "call_flag (last (c # cs))"
  proof (cases "cs = []")
    case True
    then have "(0::int) = max 0 (sint (y - 1) - sint (FirstYear r) + 1)"
      using post that(1) by (simp add: trace_post_def)
    then show ?thesis
      using True pred le' by simp
  next
    case False
    then have "call_flag (last cs)"
      using that(2) by simp
    then have "int (length cs) = max 0 (sint (y - 1) - sint (FirstYear r) + 1)"
      using post that(1) False by (simp add: trace_post_def)
    then show ?thesis
      using pred le' by simp
  qed
  have exited: "out = Exited \<longleftrightarrow> c # cs \<noteq> [] \<and> call_error (last (c # cs)) \<noteq> None"
    using post c(4) by (cases "cs = []") (auto simp: trace_post_def)
  have panicked: "out = Panicked \<longrightarrow> Client r = None \<and> c # cs = []"
    using post c(6) by (auto simp: trace_post_def)
  have returned: "\<forall>e. out \<noteq> Returned (Some e)"
    using post by (simp add: trace_post_def)
  show ?thesis
    unfolding trace_post_def
    using years range flags full exited panicked returned by blast
qed

subsection \<open>The store of the loop\<close>

lemma set_update_cases:
  assumes "(k', v') \<in> set (AList.update k v al)"
  shows "(k', v') = (k, v) \<or> (k', v') \<in> set al"
  using assms by (induction al) (auto split: if_splits)

lemma store_post_refl: "store_post qs [] qs"
  by (auto simp: store_post_def)

lemma store_post_error:
  assumes "call_error c \<noteq> None"
  shows "store_post qs [c] qs"
  using assms by (auto simp: store_post_def)

lemma store_post_single:
  assumes "call_year c = y" and "call_login c = Reporter.User r" and "call_error c = None"
  shows "store_post qs [c] (store_after r y (call_result c) qs)"
proof (cases "Login (QueryResult.User (call_result c)) = []")
  case True
  then show ?thesis
    by (auto simp: store_post_def store_after_def)
next
  case False
  let ?k = "Reporter.User r @ ''-'' @ Itoa y"
  have after: "store_after r y (call_result c) qs = AList.update ?k (call_result c) qs"
    using False by (simp add: store_after_def)
  have key: "call_key c = ?k"
    using assms(1,2) by (simp add: call_key_def)
  have entries: "\<forall>(k, v)\<in>set (AList.update ?k (call_result c) qs).
                   (k, v) \<in> set qs
                   \<or> (\<exists>c'\<in>set [c]. call_error c' = None \<and> k = call_key c'
                          \<and> v = call_result c' \<and> Login (QueryResult.User v) \<noteq> [])"
    using False assms(3) key by (auto dest: set_update_cases)
  have keys: "fst ` set (AList.update ?k (call_result c) qs) = insert ?k (fst ` set qs)"
    by (simp add: dom_update)
  have dist: "distinct (map fst qs)
                \<longrightarrow> distinct (map fst (AList.update ?k (call_result c) qs))"
    by (simp add: distinct_update)
  have sub: "fst ` set qs \<subseteq> fst ` set (AList.update ?k (call_result c) qs)"
    using keys by blast
  have mem: "\<forall>c'\<in>set [c]. call_error c' = None
                 \<and> Login (QueryResult.User (call_result c')) \<noteq> []
               \<longrightarrow> call_key c' \<in> fst ` set (AList.update ?k (call_result c) qs)"
    using keys key by simp
  show ?thesis
    unfolding store_post_def after
    using entries sub mem dist by (intro conjI)
qed

lemma store_post_append:
  assumes "store_post qs cs1 qs1" and "store_post qs1 cs2 qs2"
  shows "store_post qs (cs1 @ cs2) qs2"
proof -
  have e1: "\<forall>(k, v)\<in>set qs1. (k, v) \<in> set qs
              \<or> (\<exists>c'\<in>set cs1. call_error c' = None \<and> k = call_key c'
                     \<and> v = call_result c' \<and> Login (QueryResult.User v) \<noteq> [])"
    and s1: "fst ` set qs \<subseteq> fst ` set qs1"
    and m1: "\<forall>c'\<in>set cs1. call_error c' = None
                 \<and> Login (QueryResult.User (call_result c')) \<noteq> []
               \<longrightarrow> call_key c' \<in> fst ` set qs1"
    and d1: "distinct (map fst qs) \<longrightarrow> distinct (map fst qs1)"
    using assms(1) by (simp_all add: store_post_def)
  have e2: "\<forall>(k, v)\<in>set qs2. (k, v) \<in> set qs1
              \<or> (\<exists>c'\<in>set cs2. call_error c' = None \<and> k = call_key c'
                     \<and> v = call_result c' \<and> Login (QueryResult.User v) \<noteq> [])"
    and s2: "fst ` set qs1 \<subseteq> fst ` set qs2"
    and m2: "\<forall>c'\<in>set cs2. call_error c' = None
                 \<and> Login (QueryResult.User (call_result c')) \<noteq> []
               \<longrightarrow> call_key c' \<in> fst ` set qs2"
    and d2: "distinct (map fst qs1) \<longrightarrow> distinct (map fst qs2)"
    using assms(2) by (simp_all add: store_post_def)
  have e: "\<forall>(k, v)\<in>set qs2. (k, v) \<in> set qs
              \<or> (\<exists>c'\<in>set (cs1 @ cs2). call_error c' = None \<and> k = call_key c'
                     \<and> v = call_result c' \<and> Login (QueryResult.User v) \<noteq> [])"
  proof (intro ballI, clarify)
    fix k v assume kv: "(k, v) \<in> set qs2"
      and no: "\<not> (\<exists>c'\<in>set (cs1 @ cs2). call_error c' = None \<and> k = call_key c'
                     \<and> v = call_result c' \<and> Login (QueryResult.User v) \<noteq> [])"
    have "(k, v) \<in> set qs1"
      using e2 kv no by fastforce
    then show "(k, v) \<in> set qs"
      using e1 no by fastforce
  qed
  have s: "fst ` set qs \<subseteq> fst ` set qs2"
    using s1 s2 by (rule subset_trans)
  have m: "\<forall>c'\<in>set (cs1 @ cs2). call_error c' = None
                 \<and> Login (QueryResult.User (call_result c')) \<noteq> []
               \<longrightarrow> call_key c' \<in> fst ` set qs2"
    using m1 m2 s2 by auto
  have d: "distinct (map fst qs) \<longrightarrow> distinct (map fst qs2)"
    using d1 d2 by blast
  show ?thesis
    unfolding store_post_def using e s m d by (intro conjI)
qed

subsection \<open>The loop as a whole\<close>

lemma Collect_loop_post:
  assumes "- (2 ^ 63) < sint (FirstYear r)"
  shows "\<exists>res. Collect_loop remote r y q st = Some res
           \<and> (\<exists>cs. calls (snd res) = calls st @ cs \<and> trace_post r y (fst res) cs
                  \<and> store_post (queryResults st) cs (queryResults (snd res)))"
proof (rule Collect_loop_total [OF assms])
  fix y q and st :: "'a state"
  assume "\<not> FirstYear r \<le>s y"
  then have "trace_post r y (Returned None) []"
    by (rule trace_post_base)
  then show "\<exists>cs. calls (snd (Returned None, st)) = calls st @ cs
               \<and> trace_post r y (fst (Returned None, st)) cs
               \<and> store_post (queryResults st) cs (queryResults (snd (Returned None, st)))"
    using store_post_refl [of "queryResults st"] by simp
next
  fix y q out and st st1 :: "'a state"
  assume le: "FirstYear r \<le>s y" and body: "Collect_body remote r y q st = Stop out st1"
  consider (nil) "Client r = None" "out = Panicked" "st1 = st"
    | (call) c where "calls st1 = calls st @ [c]" "call_year c = y"
        "call_login c = Reporter.User r" "call_client c = Client r"
        "(out = Exited \<and> call_error c \<noteq> None \<and> queryResults st1 = queryResults st)
         \<or> (out = Returned None \<and> call_error c = None \<and> \<not> call_flag c
            \<and> queryResults st1 = store_after r y (call_result c) (queryResults st))"
    using Collect_body_Stop [OF body] by auto
  then have "\<exists>cs. calls st1 = calls st @ cs \<and> trace_post r y out cs
               \<and> store_post (queryResults st) cs (queryResults st1)"
  proof cases
    case nil
    then show ?thesis
      using trace_post_nil_Panicked [of r y] store_post_refl [of "queryResults st"] by simp
  next
    case call
    have "trace_post r y out [c]"
      using le call(2-5) by (intro trace_post_single) auto
    moreover have "store_post (queryResults st) [c] (queryResults st1)"
      using call(5) store_post_error [of c "queryResults st"]
            store_post_single [OF call(2,3), of "queryResults st"]
      by auto
    ultimately show ?thesis
      using call(1) by blast
  qed
  then show "\<exists>cs. calls (snd (out, st1)) = calls st @ cs \<and> trace_post r y (fst (out, st1)) cs
               \<and> store_post (queryResults st) cs (queryResults (snd (out, st1)))"
    by simp
next
  fix y q q1 res and st st1 :: "'a state"
  assume le: "FirstYear r \<le>s y" and pred: "sint (y - 1) = sint y - 1"
    and body: "Collect_body remote r y q st = Continue q1 st1"
    and IH: "\<exists>cs. calls (snd res) = calls st1 @ cs \<and> trace_post r (y - 1) (fst res) cs
               \<and> store_post (queryResults st1) cs (queryResults (snd res))"
  obtain c where c: "calls st1 = calls st @ [c]" "call_year c = y"
      "call_login c = Reporter.User r" "call_client c = Client r"
      "call_error c = None" "call_flag c" "Client r \<noteq> None"
      and cq: "call_result c = q1"
      and store: "queryResults st1 = store_after r y q1 (queryResults st)"
    using Collect_body_Continue [OF body] by auto
  obtain cs where cs: "calls (snd res) = calls st1 @ cs"
      "trace_post r (y - 1) (fst res) cs"
      "store_post (queryResults st1) cs (queryResults (snd res))"
    using IH by auto
  have "trace_post r y (fst res) (c # cs)"
    using le pred c(2-7) cs(2) by (rule trace_post_Cons)
  moreover have "store_post (queryResults st) [c] (queryResults st1)"
    using store_post_single [OF c(2,3,5), of "queryResults st"] cq store by simp
  then have "store_post (queryResults st) ([c] @ cs) (queryResults (snd res))"
    using cs(3) by (rule store_post_append)
  moreover have "calls (snd res) = calls st @ (c # cs)"
    using c(1) cs(1) by simp
  ultimately show "\<exists>cs. calls (snd res) = calls st @ cs \<and> trace_post r y (fst res) cs
                     \<and> store_post (queryResults st) cs (queryResults (snd res))"
    by auto
qed

lemma Collect_post:
  assumes "- (2 ^ 63) < sint (FirstYear r)"
  obtains out st1 cs where "Collect remote r st = Some (out, st1)"
    and "calls st1 = calls st @ cs" and "trace_post r (LastYear r) out cs"
    and "store_post (queryResults st) cs (queryResults st1)"
proof -
  obtain res cs where "Collect_loop remote r (LastYear r) zero_QueryResult st = Some res"
      "calls (snd res) = calls st @ cs" "trace_post r (LastYear r) (fst res) cs"
      "store_post (queryResults st) cs (queryResults (snd res))"
    using Collect_loop_post [OF assms, of remote "LastYear r" zero_QueryResult st] by blast
  then show ?thesis
    using that [of "fst res" "snd res" cs] by (simp add: Collect_def)
qed

subsection \<open>The example runs\<close>

lemma octocat_simps:
  "FirstYear octocat = 2000" "LastYear octocat = 2024"
  "Client octocat = Some ''token''" "Reporter.User octocat = ''octocat''"
  by (simp_all add: octocat_def)

lemma octocat_NewReporter:
  "NewReporter zero_Reporter 2024 (Some ''token'') ''octocat'' 1999 0 = (octocat, None)"
  by (simp add: NewReporter_def DefaultFirstContributionYear_def octocat_def word_sless_alt)

lemma Itoa_years: "Itoa 2024 = ''2024''" "Itoa 2023 = ''2023''" "Itoa 2022 = ''2022''"
  by (simp_all add: Itoa_def digit_of_def digits10.simps word_sless_alt)

lemma body_example:
  assumes "Client r \<noteq> None"
  shows "Collect_body (remote_example y1 y0) r y q st =
     (if y0 <s y
      then Continue (example_response y1 y0 (Reporter.User r) y) (example_after r y1 y0 y st)
      else Stop (Returned None) (example_after r y1 y0 y st))"
  using assms
  by (auto simp: Collect_body_def remote_example_def example_after_def
        store_after_def example_response_def snapshot_def Let_def)

lemma loop_example_Continue:
  assumes "y0 <s y" and "FirstYear r \<le>s y" and "Client r \<noteq> None"
  shows "Collect_loop (remote_example y1 y0) r y q st =
           Collect_loop (remote_example y1 y0) r (y - 1)
             (example_response y1 y0 (Reporter.User r) y) (example_after r y1 y0 y st)"
  using assms(1,2)
  by (subst Collect_loop.simps) (simp add: body_example [OF assms(3)])

lemma loop_example_Stop:
  assumes "\<not> y0 <s y" and "FirstYear r \<le>s y" and "Client r \<noteq> None"
  shows "Collect_loop (remote_example y1 y0) r y q st =
           Some (Returned None, example_after r y1 y0 y st)"
  using assms(1,2)
  by (subst Collect_loop.simps) (simp add: body_example [OF assms(3)])

lemma Collect_octocat:
  "Collect (remote_example y1 2022) octocat state0 =
     Some (Returned None,
           example_after octocat y1 2022 2022 (example_after octocat y1 2022 2023
             (example_after octocat y1 2022 2024 state0)))"
  by (simp add: Collect_def octocat_simps loop_example_Continue loop_example_Stop
        word_sless_alt word_sle_eq)

lemma Collect_octocat_calls:
  "map call_year (calls (example_after octocat y1 2022 2022 (example_after octocat y1 2022 2023
             (example_after octocat y1 2022 2024 state0)))) = [2024, 2023, 2022]"
  by (simp add: example_after_def state0_def)

lemma Collect_octocat_keys:
  "map fst (queryResults (example_after octocat None 2022 2022
             (example_after octocat None 2022 2023
               (example_after octocat None 2022 2024 state0))))
     = [''octocat-2024'', ''octocat-2023'', ''octocat-2022'']"
  "map fst (queryResults (example_after octocat (Some 2023) 2022 2022
             (example_after octocat (Some 2023) 2022 2023
               (example_after octocat (Some 2023) 2022 2024 state0))))
     = [''octocat-2024'', ''octocat-2022'']"
  by (simp_all add: example_after_def state0_def store_after_def example_response_def
        snapshot_def octocat_simps Itoa_years)

lemma Collect_octocat_logins:
  "map (\<lambda>c. Login (QueryResult.User (call_result c)))
     (calls (example_after octocat (Some 2023) 2022 2022
        (example_after octocat (Some 2023) 2022 2023
          (example_after octocat (Some 2023) 2022 2024 state0))))
     = [''octocat'', [], ''octocat'']"
  by (simp add: example_after_def state0_def example_response_def snapshot_def octocat_simps)

subsection \<open>The claims on Collect\<close>

text \<open>
  Claim C2. \<^verbatim>\<open>Collect\<close> returns, and its queries are for the years \<open>LastYear\<close>,
  \<open>LastYear - 1\<close>, \<open>LastYear - 2\<close> and so on, in this order: strictly descending, each
  within \<open>[FirstYear, LastYear]\<close>, each for the user of the Reporter. Every query but
  the last was answered without error and with \<^verbatim>\<open>hasActivityInThePast\<close> set, so no
  query follows an answer with the flag unset; and when the call returns without the
  last answer having the flag unset, every year of the range was queried. This holds
  for every Reporter whose first year is not the smallest \<^verbatim>\<open>int\<close>, at which the
  decrement of the loop would wrap around; every Reporter made by \<^verbatim>\<open>NewReporter\<close> has
  a first year of at least 2000. With answers whose flag is unset for 2022 and a range
  of 2000 to 2024, exactly 2024, 2023 and 2022 are queried: this run is the instance
  that follows the theorem.
\<close>

theorem Collect_queries_descending:
  "(NewReporter r0 thisYear client user firstYear lastYear = (r, None)
      \<longrightarrow> - (2 ^ 63) < sint (FirstYear r))
   \<and> (- (2 ^ 63) < sint (FirstYear r) \<longrightarrow>
        (\<exists>out st1 cs.
           Collect remote r st = Some (out, st1) \<and> calls st1 = calls st @ cs
           \<and> (\<forall>i<length cs. sint (call_year (cs ! i)) = sint (LastYear r) - int i)
           \<and> sorted_wrt (\<lambda>a b. call_year b <s call_year a) cs
           \<and> (\<forall>c\<in>set cs. sint (FirstYear r) \<le> sint (call_year c)
                          \<and> sint (call_year c) \<le> sint (LastYear r)
                          \<and> call_login c = Reporter.User r)
           \<and> (\<forall>i. Suc i < length cs \<longrightarrow> call_error (cs ! i) = None \<and> call_flag (cs ! i))
           \<and> (out = Returned None \<and> (cs \<noteq> [] \<longrightarrow> call_flag (last cs))
                \<longrightarrow> int (length cs) = max 0 (sint (LastYear r) - sint (FirstYear r) + 1))))"
proof (intro conjI impI)
  assume "NewReporter r0 thisYear client user firstYear lastYear = (r, None)"
  then have "2000 \<le> sint (FirstYear r)"
    by (rule NewReporter_None(4))
  then show "- (2 ^ 63) < sint (FirstYear r)"
    by simp
next
  assume min: "- (2 ^ 63) < sint (FirstYear r)"
  obtain out st1 cs where res: "Collect remote r st = Some (out, st1)"
      and cs: "calls st1 = calls st @ cs"
      and post: "trace_post r (LastYear r) out cs"
    using Collect_post [OF min, of remote st] by blast
  have years: "\<forall>i<length cs. sint (call_year (cs ! i)) = sint (LastYear r) - int i"
    using post by (simp add: trace_post_def)
  have sorted: "sorted_wrt (\<lambda>a b. call_year b <s call_year a) cs"
    using years by (simp add: sorted_wrt_iff_nth_less word_sless_alt)
  have upper: "sint (call_year c) \<le> sint (LastYear r)" if "c \<in> set cs" for c
  proof -
    have "\<exists>i<length cs. cs ! i = c"
      using that by (simp add: in_set_conv_nth)
    then obtain i where "i < length cs" "cs ! i = c"
      by blast
    then have "sint (call_year c) = sint (LastYear r) - int i"
      using years by blast
    then show ?thesis by simp
  qed
  show "\<exists>out st1 cs.
           Collect remote r st = Some (out, st1) \<and> calls st1 = calls st @ cs
           \<and> (\<forall>i<length cs. sint (call_year (cs ! i)) = sint (LastYear r) - int i)
           \<and> sorted_wrt (\<lambda>a b. call_year b <s call_year a) cs
           \<and> (\<forall>c\<in>set cs. sint (FirstYear r) \<le> sint (call_year c)
                          \<and> sint (call_year c) \<le> sint (LastYear r)
                          \<and> call_login c = Reporter.User r)
           \<and> (\<forall>i. Suc i < length cs \<longrightarrow> call_error (cs ! i) = None \<and> call_flag (cs ! i))
           \<and> (out = Returned None \<and> (cs \<noteq> [] \<longrightarrow> call_flag (last cs))
                \<longrightarrow> int (length cs) = max 0 (sint (LastYear r) - sint (FirstYear r) + 1))"
    using res cs years sorted upper post unfolding trace_post_def by blast
qed

theorem Collect_queries_descending_witness:
  "NewReporter zero_Reporter 2024 (Some ''token'') ''octocat'' 1999 0 = (octocat, None)
   \<and> - (2 ^ 63) < sint (FirstYear octocat)
   \<and> (\<exists>out st1 cs.
          Collect (remote_example None 2022) octocat state0 = Some (out, st1)
          \<and> calls st1 = calls state0 @ cs
          \<and> (\<forall>i<length cs. sint (call_year (cs ! i)) = sint (LastYear octocat) - int i)
          \<and> sorted_wrt (\<lambda>a b. call_year b <s call_year a) cs
          \<and> (\<forall>c\<in>set cs. sint (FirstYear octocat) \<le> sint (call_year c)
                         \<and> sint (call_year c) \<le> sint (LastYear octocat)
                         \<and> call_login c = Reporter.User octocat)
          \<and> (\<forall>i. Suc i < length cs \<longrightarrow> call_error (cs ! i) = None \<and> call_flag (cs ! i))
          \<and> (out = Returned None \<and> (cs \<noteq> [] \<longrightarrow> call_flag (last cs))
               \<longrightarrow> int (length cs)
                     = max 0 (sint (LastYear octocat) - sint (FirstYear octocat) + 1)))
   \<and> (\<exists>st1. Collect (remote_example None 2022) octocat state0 = Some (Returned None, st1)
          \<and> map call_year (calls st1) = [2024, 2023, 2022]
          \<and> map fst (queryResults st1)
              = [''octocat-2024'', ''octocat-2023'', ''octocat-2022''])"
proof -
  have min: "- (2 ^ 63) < sint (FirstYear octocat)"
    by (simp add: octocat_simps)
  have run: "\<exists>st1. Collect (remote_example None 2022) octocat state0
                       = Some (Returned None, st1)
                 \<and> map call_year (calls st1) = [2024, 2023, 2022]
                 \<and> map fst (queryResults st1)
                     = [''octocat-2024'', ''octocat-2023'', ''octocat-2022'']"
    using Collect_octocat [of None] Collect_octocat_calls [of None] Collect_octocat_keys(1)
    by simp
  have inst: "(NewReporter zero_Reporter 2024 (Some ''token'') ''octocat'' 1999 0
                  = (octocat, None)
                \<longrightarrow> - (2 ^ 63) < sint (FirstYear octocat))
              \<and> (- (2 ^ 63) < sint (FirstYear octocat) \<longrightarrow>
                  (\<exists>out st1 cs.
          Collect (remote_example None 2022) octocat state0 = Some (out, st1)
          \<and> calls st1 = calls state0 @ cs
          \<and> (\<forall>i<length cs. sint (call_year (cs ! i)) = sint (LastYear octocat) - int i)
          \<and> sorted_wrt (\<lambda>a b. call_year b <s call_year a) cs
          \<and> (\<forall>c\<in>set cs. sint (FirstYear octocat) \<le> sint (call_year c)
                         \<and> sint (call_year c) \<le> sint (LastYear octocat)
                         \<and> call_login c = Reporter.User octocat)
          \<and> (\<forall>i. Suc i < length cs \<longrightarrow> call_error (cs ! i) = None \<and> call_flag (cs ! i))
          \<and> (out = Returned None \<and> (cs \<noteq> [] \<longrightarrow> call_flag (last cs))
               \<longrightarrow> int (length cs)
                     = max 0 (sint (LastYear octocat) - sint (FirstYear octocat) + 1))))"
    by (rule Collect_queries_descending)
  show ?thesis
    using octocat_NewReporter min inst [THEN conjunct2, THEN mp, OF min] run
    by (intro conjI)
qed

text \<open>
  Claim C6. Every entry of the store after \<^verbatim>\<open>Collect\<close> is an entry of the store
  before it, or the answer to one of its queries that came without error and with a
  non-empty login, under the key made of the user, a hyphen and the year of that query.
  So a store whose logins are all non-empty stays such a store, and an answer with an
  empty login is never inserted. Every answer without error and with a non-empty login
  has its key in the store, no key is lost, and the keys stay distinct. As for the
  queries, this holds for every Reporter whose first year is not the smallest
  \<^verbatim>\<open>int\<close>, hence for every Reporter made by \<^verbatim>\<open>NewReporter\<close>.
\<close>

theorem Collect_store_nonempty_login:
  "(NewReporter r0 thisYear client user firstYear lastYear = (r, None)
      \<longrightarrow> - (2 ^ 63) < sint (FirstYear r))
   \<and> (- (2 ^ 63) < sint (FirstYear r) \<longrightarrow>
        (\<exists>out st1 cs.
           Collect remote r st = Some (out, st1) \<and> calls st1 = calls st @ cs
           \<and> (\<forall>(k, v)\<in>set (queryResults st1).
                 (k, v) \<in> set (queryResults st)
                 \<or> (\<exists>c\<in>set cs. call_error c = None
                        \<and> k = Reporter.User r @ ''-'' @ Itoa (call_year c)
                        \<and> v = call_result c \<and> Login (QueryResult.User v) \<noteq> []))
           \<and> ((\<forall>(k, v)\<in>set (queryResults st). Login (QueryResult.User v) \<noteq> [])
                \<longrightarrow> (\<forall>(k, v)\<in>set (queryResults st1). Login (QueryResult.User v) \<noteq> []))
           \<and> (\<forall>c\<in>set cs. call_error c = None
                            \<and> Login (QueryResult.User (call_result c)) \<noteq> []
                 \<longrightarrow> Reporter.User r @ ''-'' @ Itoa (call_year c)
                       \<in> fst ` set (queryResults st1))
           \<and> fst ` set (queryResults st) \<subseteq> fst ` set (queryResults st1)
           \<and> (distinct (map fst (queryResults st))
                \<longrightarrow> distinct (map fst (queryResults st1)))))"
proof (intro conjI impI)
  assume "NewReporter r0 thisYear client user firstYear lastYear = (r, None)"
  then have "2000 \<le> sint (FirstYear r)"
    by (rule NewReporter_None(4))
  then show "- (2 ^ 63) < sint (FirstYear r)"
    by simp
next
  assume min: "- (2 ^ 63) < sint (FirstYear r)"
  obtain out st1 cs where res: "Collect remote r st = Some (out, st1)"
      and cs: "calls st1 = calls st @ cs"
      and trace: "trace_post r (LastYear r) out cs"
      and post: "store_post (queryResults st) cs (queryResults st1)"
    using Collect_post [OF min, of remote st] by blast
  have key: "call_key c = Reporter.User r @ ''-'' @ Itoa (call_year c)" if "c \<in> set cs" for c
    using trace that by (simp add: trace_post_def call_key_def)
  have entries: "\<forall>(k, v)\<in>set (queryResults st1).
                 (k, v) \<in> set (queryResults st)
                 \<or> (\<exists>c\<in>set cs. call_error c = None
                        \<and> k = Reporter.User r @ ''-'' @ Itoa (call_year c)
                        \<and> v = call_result c \<and> Login (QueryResult.User v) \<noteq> [])"
  proof (intro ballI, clarify)
    fix k v assume kv: "(k, v) \<in> set (queryResults st1)"
      and no: "\<not> (\<exists>c\<in>set cs. call_error c = None
                        \<and> k = Reporter.User r @ ''-'' @ Itoa (call_year c)
                        \<and> v = call_result c \<and> Login (QueryResult.User v) \<noteq> [])"
    have "(k, v) \<in> set (queryResults st)
          \<or> (\<exists>c\<in>set cs. call_error c = None \<and> k = call_key c \<and> v = call_result c
                 \<and> Login (QueryResult.User v) \<noteq> [])"
      using post kv by (auto simp: store_post_def)
    then show "(k, v) \<in> set (queryResults st)"
      using no key by auto
  qed
  have logins: "\<forall>(k, v)\<in>set (queryResults st1). Login (QueryResult.User v) \<noteq> []"
    if "\<forall>(k, v)\<in>set (queryResults st). Login (QueryResult.User v) \<noteq> []"
    using entries that by fastforce
  have stored: "\<forall>c\<in>set cs. call_error c = None
                            \<and> Login (QueryResult.User (call_result c)) \<noteq> []
                 \<longrightarrow> Reporter.User r @ ''-'' @ Itoa (call_year c)
                       \<in> fst ` set (queryResults st1)"
  proof (intro ballI impI)
    fix c assume c: "c \<in> set cs"
      and ok: "call_error c = None \<and> Login (QueryResult.User (call_result c)) \<noteq> []"
    have "call_key c \<in> fst ` set (queryResults st1)"
      using post c ok by (simp add: store_post_def)
    then show "Reporter.User r @ ''-'' @ Itoa (call_year c) \<in> fst ` set (queryResults st1)"
      using key [OF c] by simp
  qed
  have keys: "fst ` set (queryResults st) \<subseteq> fst ` set (queryResults st1)"
    and dist: "distinct (map fst (queryResults st)) \<longrightarrow> distinct (map fst (queryResults st1))"
    using post by (simp_all add: store_post_def)
  show "\<exists>out st1 cs.
           Collect remote r st = Some (out, st1) \<and> calls st1 = calls st @ cs
           \<and> (\<forall>(k, v)\<in>set (queryResults st1).
                 (k, v) \<in> set (queryResults st)
                 \<or> (\<exists>c\<in>set cs. call_error c = None
                        \<and> k = Reporter.User r @ ''-'' @ Itoa (call_year c)
                        \<and> v = call_result c \<and> Login (QueryResult.User v) \<noteq> []))
           \<and> ((\<forall>(k, v)\<in>set (queryResults st). Login (QueryResult.User v) \<noteq> [])
                \<longrightarrow> (\<forall>(k, v)\<in>set (queryResults st1). Login (QueryResult.User v) \<noteq> []))
           \<and> (\<forall>c\<in>set cs. call_error c = None
                            \<and> Login (QueryResult.User (call_result c)) \<noteq> []
                 \<longrightarrow> Reporter.User r @ ''-'' @ Itoa (call_year c)
                       \<in> fst ` set (queryResults st1))
           \<and> fst ` set (queryResults st) \<subseteq> fst ` set (queryResults st1)
           \<and> (distinct (map fst (queryResults st))
                \<longrightarrow> distinct (map fst (queryResults st1)))"
    using res cs entries logins stored keys dist by blast
qed

theorem Collect_store_nonempty_login_witness:
  "- (2 ^ 63) < sint (FirstYear octocat)
   \<and> (\<exists>out st1 cs.
           Collect (remote_example (Some 2023) 2022) octocat state0 = Some (out, st1)
           \<and> calls st1 = calls state0 @ cs
           \<and> (\<forall>(k, v)\<in>set (queryResults st1).
                 (k, v) \<in> set (queryResults state0)
                 \<or> (\<exists>c\<in>set cs. call_error c = None
                        \<and> k = Reporter.User octocat @ ''-'' @ Itoa (call_year c)
                        \<and> v = call_result c \<and> Login (QueryResult.User v) \<noteq> []))
           \<and> ((\<forall>(k, v)\<in>set (queryResults state0). Login (QueryResult.User v) \<noteq> [])
                \<longrightarrow> (\<forall>(k, v)\<in>set (queryResults st1). Login (QueryResult.User v) \<noteq> []))
           \<and> (\<forall>c\<in>set cs. call_error c = None
                            \<and> Login (QueryResult.User (call_result c)) \<noteq> []
                 \<longrightarrow> Reporter.User octocat @ ''-'' @ Itoa (call_year c)
                       \<in> fst ` set (queryResults st1))
           \<and> fst ` set (queryResults state0) \<subseteq> fst ` set (queryResults st1)
           \<and> (distinct (map fst (queryResults state0))
                \<longrightarrow> distinct (map fst (queryResults st1))))
   \<and> (\<exists>st1. Collect (remote_example (Some 2023) 2022) octocat state0
                 = Some (Returned None, st1)
          \<and> map call_year (calls st1) = [2024, 2023, 2022]
          \<and> map (\<lambda>c. Login (QueryResult.User (call_result c))) (calls st1)
              = [''octocat'', [], ''octocat'']
          \<and> map fst (queryResults st1) = [''octocat-2024'', ''octocat-2022''])"
proof -
  have min: "- (2 ^ 63) < sint (FirstYear octocat)"
    by (simp add: octocat_simps)
  have run: "\<exists>st1. Collect (remote_example (Some 2023) 2022) octocat state0
                       = Some (Returned None, st1)
                 \<and> map call_year (calls st1) = [2024, 2023, 2022]
                 \<and> map (\<lambda>c. Login (QueryResult.User (call_result c))) (calls st1)
                     = [''octocat'', [], ''octocat'']
                 \<and> map fst (queryResults st1) = [''octocat-2024'', ''octocat-2022'']"
    using Collect_octocat [of "Some 2023"] Collect_octocat_calls [of "Some 2023"]
          Collect_octocat_keys(2) Collect_octocat_logins
    by simp
  show ?thesis
    using min
          Collect_store_nonempty_login
            [where r = octocat and remote = "remote_example (Some 2023) 2022"
               and st = state0 and ?r0.0 = zero_Reporter and thisYear = 2024
               and client = "Some ''token''" and user = "''octocat''"
               and firstYear = 1999 and lastYear = 0,
             THEN conjunct2, THEN mp, OF min]
          run
    by (intro conjI)
qed


section \<open>Properties of main\<close>

subsection \<open>The credential loop\<close>

lemma credential_loop_post:
  "\<exists>out rep st css.
     credential_loop remote thisYear config credentials r0 st0 = Some (out, rep, st)
     \<and> (out = Returned None \<or> out = Exited)
     \<and> calls st = calls st0 @ concat css
     \<and> store_post (queryResults st0) (concat css) (queryResults st)
     \<and> (out = Returned None \<longrightarrow>
          rep = (if credentials = [] then r0
                 else credential_reporter thisYear config (last credentials))
          \<and> list_all2 (credential_calls thisYear config) credentials css)"
proof (induction credentials arbitrary: r0 st0)
  case Nil
  have "calls st0 = calls st0 @ concat []" "store_post (queryResults st0) (concat []) (queryResults st0)"
    by (simp_all add: store_post_refl)
  then show ?case
    by (intro exI [of _ "Returned None"] exI [of _ r0] exI [of _ st0] exI [of _ "[]"]) simp
next
  case (Cons credential rest)
  obtain rep1 err where new: "NewReporter r0 thisYear (Some (Token credential))
      (Username credential) (firstReportingYear config) (lastReportingYear config) = (rep1, err)"
    by (cases "NewReporter r0 thisYear (Some (Token credential)) (Username credential)
                 (firstReportingYear config) (lastReportingYear config)")
  show ?case
  proof (cases err)
    case (Some e)
    have "credential_loop remote thisYear config (credential # rest) r0 st0
            = Some (Exited, rep1, st0)"
      using new Some by simp
    moreover have "calls st0 = calls st0 @ concat []"
        "store_post (queryResults st0) (concat []) (queryResults st0)"
      by (simp_all add: store_post_refl)
    ultimately show ?thesis
      by (intro exI [of _ Exited] exI [of _ rep1] exI [of _ st0] exI [of _ "[]"]) simp
  next
    case None
    have rep1: "rep1 = credential_reporter thisYear config credential"
      using new NewReporter_receiver [of r0] by (simp add: credential_reporter_def)
    have user: "Username credential \<noteq> []" and client: "Client rep1 = Some (Token credential)"
      and first: "2000 \<le> sint (FirstYear rep1)"
      using NewReporter_None [OF new [unfolded None]] by simp_all
    have min: "- (2 ^ 63) < sint (FirstYear rep1)"
      using first by simp
    obtain out1 st1 cs1 where col: "Collect remote rep1 st0 = Some (out1, st1)"
        and cs1: "calls st1 = calls st0 @ cs1"
        and trace1: "trace_post rep1 (LastYear rep1) out1 cs1"
        and store1: "store_post (queryResults st0) cs1 (queryResults st1)"
      using Collect_post [OF min, of remote st0] by blast
    have not_panicked: "out1 \<noteq> Panicked"
      using trace1 client by (auto simp: trace_post_def)
    have not_error: "out1 \<noteq> Returned (Some e)" for e
      using trace1 by (simp add: trace_post_def)
    show ?thesis
    proof (cases "out1 = Exited")
      case True
      have "credential_loop remote thisYear config (credential # rest) r0 st0
              = Some (Exited, rep1, st1)"
        using new None col True by simp
      moreover have "calls st1 = calls st0 @ concat [cs1]"
          "store_post (queryResults st0) (concat [cs1]) (queryResults st1)"
        using cs1 store1 by simp_all
      ultimately show ?thesis
        by (intro exI [of _ Exited] exI [of _ rep1] exI [of _ st1] exI [of _ "[cs1]"]) simp
    next
      case False
      then have out1: "out1 = Returned None"
        using not_panicked not_error by (cases out1) auto
      have step: "credential_loop remote thisYear config (credential # rest) r0 st0
                    = credential_loop remote thisYear config rest rep1 st1"
        using new None col out1 by simp
      obtain out rep st css where rest: "credential_loop remote thisYear config rest rep1 st1
            = Some (out, rep, st)"
          and out: "out = Returned None \<or> out = Exited"
          and calls: "calls st = calls st1 @ concat css"
          and store: "store_post (queryResults st1) (concat css) (queryResults st)"
          and fin: "out = Returned None \<longrightarrow>
                       rep = (if rest = [] then rep1
                              else credential_reporter thisYear config (last rest))
                       \<and> list_all2 (credential_calls thisYear config) rest css"
        using Cons.IH [of rep1 st1] by blast
      have calls': "calls st = calls st0 @ concat (cs1 # css)"
        using calls cs1 by simp
      have store': "store_post (queryResults st0) (concat (cs1 # css)) (queryResults st)"
        using store_post_append [OF store1 store] by simp
      have first_calls: "credential_calls thisYear config credential cs1"
        using user trace1 out1 rep1 by (simp add: credential_calls_def)
      have fin': "out = Returned None \<longrightarrow>
                     rep = (if credential # rest = [] then r0
                            else credential_reporter thisYear config (last (credential # rest)))
                     \<and> list_all2 (credential_calls thisYear config) (credential # rest)
                           (cs1 # css)"
        using fin first_calls rep1 by simp
      show ?thesis
        using step rest out calls' store' fin'
        by (intro exI [of _ out] exI [of _ rep] exI [of _ st] exI [of _ "cs1 # css"]) simp
    qed
  qed
qed

lemma main_run_eq:
  assumes "credential_loop remote thisYear config credentials zero_Reporter
             \<lparr>queryResults = [], world = w, calls = []\<rparr> = Some (out, rep, st)"
    and "out = Returned None \<or> out = Exited"
  shows "main_run remote thisYear now config credentials w =
           Some (out,
                 if out = Returned None then Some (fst (Report rep now (queryResults st)))
                 else None,
                 st)"
  using assms by (auto simp: main_run_def)

lemma Report_receiver: "Report r1 now qs = Report r2 now qs"
  by (simp add: Report_def Aggregate_def)

subsection \<open>An example run and a failing run\<close>

lemma reporter_simps:
  "FirstYear reporterA = 2000" "LastYear reporterA = 2024" "Client reporterA \<noteq> None"
  "Reporter.User reporterA = ''A''" "Client reporterA = Some ''token-A''"
  "FirstYear reporterB = 2000" "LastYear reporterB = 2024" "Client reporterB \<noteq> None"
  "Reporter.User reporterB = ''B''" "Client reporterB = Some ''token-B''"
  by (simp_all add: reporterA_def reporterB_def)

lemma NewReporter_AB:
  "NewReporter r 2024 (Some ''token-A'') ''A'' 2000 2024 = (reporterA, None)"
  "NewReporter r 2024 (Some ''token-B'') ''B'' 2000 2024 = (reporterB, None)"
  by (simp_all add: NewReporter_def DefaultFirstContributionYear_def reporterA_def
        reporterB_def word_sless_alt)

lemma Collect_example_2023:
  assumes "Client r \<noteq> None" and "FirstYear r = 2000" and "LastYear r = 2024"
  shows "Collect (remote_example None 2023) r st =
           Some (Returned None,
                 example_after r None 2023 2023 (example_after r None 2023 2024 st))"
  using assms
  by (simp add: Collect_def loop_example_Continue loop_example_Stop
        word_sless_alt word_sle_eq)

lemma credential_loop_AB:
  "credential_loop (remote_example None 2023) 2024 example_config example_credentials
     zero_Reporter state0 = Some (Returned None, reporterB, state_AB)"
  by (simp add: example_config_def example_credentials_def NewReporter_AB
        Collect_example_2023 reporter_simps state_AB_def)

lemma state_AB_calls:
  "map (\<lambda>c. (call_login c, call_year c)) (calls state_AB)
     = [(''A'', 2024), (''A'', 2023), (''B'', 2024), (''B'', 2023)]"
  by (simp add: state_AB_def example_after_def state0_def reporter_simps)

lemma state_AB_store:
  "queryResults state_AB =
     [(''A-2024'', example_response None 2023 ''A'' 2024),
      (''A-2023'', example_response None 2023 ''A'' 2023),
      (''B-2024'', example_response None 2023 ''B'' 2024),
      (''B-2023'', example_response None 2023 ''B'' 2023)]"
  by (simp add: state_AB_def example_after_def state0_def reporter_simps store_after_def
        example_response_def snapshot_def Itoa_years)

lemma Itoa_report: "Itoa 1730498450 = ''1730498450''" "Itoa 4 = ''4''" "Itoa 0 = ''0''"
  by (simp_all add: Itoa_def digit_of_def digits10.simps word_sless_alt)

lemma Report_AB: "fst (Report r 1730498450 (queryResults state_AB)) = report_AB"
proof -
  have names: "store_names (queryResults state_AB) = []"
    by (simp add: state_AB_store store_names_def repository_names_def example_response_def
          snapshot_def)
  have commits: "(\<Sum>e\<leftarrow>queryResults state_AB. commits_of (snd e)) = 4"
    by (simp add: state_AB_store commits_of_def example_response_def snapshot_def)
  have others: "(\<Sum>e\<leftarrow>queryResults state_AB. others_of (snd e)) = 0"
    by (simp add: state_AB_store others_of_def example_response_def snapshot_def)
  show ?thesis
    by (simp add: Report_def Aggregate_eq names commits others MarshalIndent_def
          json_field_def Itoa_report report_AB_def)
qed

lemma body_failing:
  assumes "Client r = Some t"
  shows "Collect_body remote_failing r y q st =
           Stop Exited
             (st\<lparr>world := Suc (world st),
                 calls := calls st
                   @ [\<lparr>call_client = Some t, call_login = Reporter.User r, call_year = y,
                       call_error =
                         Some (QueryFailure ''non-200 OK status code: 401 Unauthorized''),
                       call_result = q\<rparr>]\<rparr>)"
  using assms by (simp add: Collect_body_def remote_failing_def)

lemma Collect_failing:
  assumes "Client r = Some t" and "FirstYear r \<le>s LastYear r"
  shows "Collect remote_failing r st =
           Some (Exited,
             st\<lparr>world := Suc (world st),
                calls := calls st
                  @ [\<lparr>call_client = Some t, call_login = Reporter.User r,
                      call_year = LastYear r,
                      call_error =
                        Some (QueryFailure ''non-200 OK status code: 401 Unauthorized''),
                      call_result = zero_QueryResult\<rparr>]\<rparr>)"
  unfolding Collect_def
  using assms(2)
  by (subst Collect_loop.simps) (simp add: body_failing [OF assms(1)])

subsection \<open>The claims on main\<close>

text \<open>
  Claim C10. The receiver plays no part in \<^verbatim>\<open>Aggregate\<close> and \<^verbatim>\<open>Report\<close>: on the
  same store any two Reporters give the same three counts, whatever the clock shows,
  and the same result and the same report when the clock shows the same time. In
  \<^verbatim>\<open>main\<close> the credential loop always comes to an end. All its queries, for all
  credentials, are recorded in one store: every entry of the final store is the answer
  to a query of one of the credentials, and every answer without error and with a
  non-empty login has its key there. When the loop is left normally, each credential
  had a non-empty user name and was collected as \<^verbatim>\<open>Collect\<close> does for its Reporter,
  the Reporter at hand is the one of the last credential, and the report printed is
  \<^verbatim>\<open>Report\<close> of that Reporter on the final store, which is the report any Reporter
  gives on it, with the totals taken over all entries of the store.
\<close>

theorem Report_after_credential_loop:
  "Aggregate r1 now qs = Aggregate r2 now qs
   \<and> Report r1 now qs = Report r2 now qs
   \<and> AggregatedResults.TotalCommitContributions (fst (Aggregate r1 now1 qs))
       = AggregatedResults.TotalCommitContributions (fst (Aggregate r2 now2 qs))
   \<and> TotalOtherContributions (fst (Aggregate r1 now1 qs))
       = TotalOtherContributions (fst (Aggregate r2 now2 qs))
   \<and> TotalRepositories (fst (Aggregate r1 now1 qs))
       = TotalRepositories (fst (Aggregate r2 now2 qs))
   \<and> (\<exists>out rep st css.
          credential_loop remote thisYear config credentials zero_Reporter
            \<lparr>queryResults = [], world = w, calls = []\<rparr> = Some (out, rep, st)
          \<and> (out = Returned None \<or> out = Exited)
          \<and> main_run remote thisYear now config credentials w =
                Some (out,
                      if out = Returned None
                      then Some (fst (Report rep now (queryResults st))) else None,
                      st)
          \<and> calls st = concat css
          \<and> (\<forall>(k, v)\<in>set (queryResults st).
                \<exists>c\<in>set (concat css). call_error c = None
                   \<and> k = call_login c @ ''-'' @ Itoa (call_year c)
                   \<and> v = call_result c \<and> Login (QueryResult.User v) \<noteq> [])
          \<and> (\<forall>c\<in>set (concat css).
                call_error c = None \<and> Login (QueryResult.User (call_result c)) \<noteq> []
                \<longrightarrow> call_login c @ ''-'' @ Itoa (call_year c) \<in> fst ` set (queryResults st))
          \<and> (out = Returned None \<longrightarrow>
                rep = (if credentials = [] then zero_Reporter
                       else credential_reporter thisYear config (last credentials))
                \<and> list_all2 (credential_calls thisYear config) credentials css
                \<and> (\<forall>r. Report r now (queryResults st) = Report rep now (queryResults st))
                \<and> fst (Aggregate rep now (queryResults st)) =
                     \<lparr>Timestamp = now,
                      AggregatedResults.TotalCommitContributions =
                        (\<Sum>e\<leftarrow>queryResults st. commits_of (snd e)),
                      TotalRepositories = of_nat (card (set (store_names (queryResults st)))),
                      TotalOtherContributions =
                        (\<Sum>e\<leftarrow>queryResults st. others_of (snd e))\<rparr>))"
proof -
  let ?st0 = "\<lparr>queryResults = [], world = w, calls = []\<rparr>"
  obtain out rep st css where loop: "credential_loop remote thisYear config credentials
        zero_Reporter ?st0 = Some (out, rep, st)"
      and out: "out = Returned None \<or> out = Exited"
      and calls: "calls st = calls ?st0 @ concat css"
      and store: "store_post (queryResults ?st0) (concat css) (queryResults st)"
      and fin: "out = Returned None \<longrightarrow>
                  rep = (if credentials = [] then zero_Reporter
                         else credential_reporter thisYear config (last credentials))
                  \<and> list_all2 (credential_calls thisYear config) credentials css"
    using credential_loop_post [of remote thisYear config credentials zero_Reporter ?st0]
    by blast
  have main: "main_run remote thisYear now config credentials w =
                Some (out,
                      if out = Returned None
                      then Some (fst (Report rep now (queryResults st))) else None,
                      st)"
    using loop out by (rule main_run_eq)
  have calls': "calls st = concat css"
    using calls by simp
  have entries: "\<forall>(k, v)\<in>set (queryResults st).
                \<exists>c\<in>set (concat css). call_error c = None
                   \<and> k = call_login c @ ''-'' @ Itoa (call_year c)
                   \<and> v = call_result c \<and> Login (QueryResult.User v) \<noteq> []"
    using store by (simp add: store_post_def call_key_def)
  have stored: "\<forall>c\<in>set (concat css).
                call_error c = None \<and> Login (QueryResult.User (call_result c)) \<noteq> []
                \<longrightarrow> call_login c @ ''-'' @ Itoa (call_year c) \<in> fst ` set (queryResults st)"
    using store by (simp add: store_post_def call_key_def)
  have any: "\<forall>r. Report r now (queryResults st) = Report rep now (queryResults st)"
    using Report_receiver by blast
  have agg: "fst (Aggregate rep now (queryResults st)) =
                     \<lparr>Timestamp = now,
                      AggregatedResults.TotalCommitContributions =
                        (\<Sum>e\<leftarrow>queryResults st. commits_of (snd e)),
                      TotalRepositories = of_nat (card (set (store_names (queryResults st)))),
                      TotalOtherContributions =
                        (\<Sum>e\<leftarrow>queryResults st. others_of (snd e))\<rparr>"
    by (simp add: Aggregate_eq)
  have receiver: "Aggregate r1 now qs = Aggregate r2 now qs"
      "Report r1 now qs = Report r2 now qs"
      "AggregatedResults.TotalCommitContributions (fst (Aggregate r1 now1 qs))
         = AggregatedResults.TotalCommitContributions (fst (Aggregate r2 now2 qs))"
      "TotalOtherContributions (fst (Aggregate r1 now1 qs))
         = TotalOtherContributions (fst (Aggregate r2 now2 qs))"
      "TotalRepositories (fst (Aggregate r1 now1 qs))
         = TotalRepositories (fst (Aggregate r2 now2 qs))"
    by (simp_all add: Aggregate_def Report_def case_prod_beta)
  have run: "\<exists>out rep st css.
          credential_loop remote thisYear config credentials zero_Reporter ?st0
            = Some (out, rep, st)
          \<and> (out = Returned None \<or> out = Exited)
          \<and> main_run remote thisYear now config credentials w =
                Some (out,
                      if out = Returned None
                      then Some (fst (Report rep now (queryResults st))) else None,
                      st)
          \<and> calls st = concat css
          \<and> (\<forall>(k, v)\<in>set (queryResults st).
                \<exists>c\<in>set (concat css). call_error c = None
                   \<and> k = call_login c @ ''-'' @ Itoa (call_year c)
                   \<and> v = call_result c \<and> Login (QueryResult.User v) \<noteq> [])
          \<and> (\<forall>c\<in>set (concat css).
                call_error c = None \<and> Login (QueryResult.User (call_result c)) \<noteq> []
                \<longrightarrow> call_login c @ ''-'' @ Itoa (call_year c) \<in> fst ` set (queryResults st))
          \<and> (out = Returned None \<longrightarrow>
                rep = (if credentials = [] then zero_Reporter
                       else credential_reporter thisYear config (last credentials))
                \<and> list_all2 (credential_calls thisYear config) credentials css
                \<and> (\<forall>r. Report r now (queryResults st) = Report rep now (queryResults st))
                \<and> fst (Aggregate rep now (queryResults st)) =
                     \<lparr>Timestamp = now,
                      AggregatedResults.TotalCommitContributions =
                        (\<Sum>e\<leftarrow>queryResults st. commits_of (snd e)),
                      TotalRepositories = of_nat (card (set (store_names (queryResults st)))),
                      TotalOtherContributions =
                        (\<Sum>e\<leftarrow>queryResults st. others_of (snd e))\<rparr>)"
    using loop out main calls' entries stored fin any agg by blast
  show ?thesis
    using receiver run by (intro conjI)
qed

theorem Report_after_credential_loop_witness:
  "\<exists>st css.
     main_run (remote_example None 2023) 2024 1730498450 example_config example_credentials 0
       = Some (Returned None, Some report_AB, st)
     \<and> credential_loop (remote_example None 2023) 2024 example_config example_credentials
          zero_Reporter \<lparr>queryResults = [], world = 0, calls = []\<rparr>
        = Some (Returned None, reporterB, st)
     \<and> reporterB = credential_reporter 2024 example_config (last example_credentials)
     \<and> calls st = concat css
     \<and> list_all2 (credential_calls 2024 example_config) example_credentials css
     \<and> map (\<lambda>c. (call_login c, call_year c)) (calls st)
         = [(''A'', 2024), (''A'', 2023), (''B'', 2024), (''B'', 2023)]
     \<and> map fst (queryResults st) = [''A-2024'', ''A-2023'', ''B-2024'', ''B-2023'']
     \<and> fst (Report reporterA 1730498450 (queryResults st)) = report_AB
     \<and> sint (AggregatedResults.TotalCommitContributions
               (fst (Aggregate reporterB 1730498450 (queryResults st)))) = 4"
proof -
  have loop: "credential_loop (remote_example None 2023) 2024 example_config
                example_credentials zero_Reporter \<lparr>queryResults = [], world = 0, calls = []\<rparr>
              = Some (Returned None, reporterB, state_AB)"
    using credential_loop_AB by (simp add: state0_def)
  obtain out rep st css where loop': "credential_loop (remote_example None 2023) 2024
        example_config example_credentials zero_Reporter
        \<lparr>queryResults = [], world = 0, calls = []\<rparr> = Some (out, rep, st)"
      and main: "main_run (remote_example None 2023) 2024 1730498450 example_config
                   example_credentials 0 =
                 Some (out,
                       if out = Returned None
                       then Some (fst (Report rep 1730498450 (queryResults st))) else None,
                       st)"
      and calls: "calls st = concat css"
      and fin: "out = Returned None \<longrightarrow>
                  rep = (if example_credentials = [] then zero_Reporter
                         else credential_reporter 2024 example_config (last example_credentials))
                  \<and> list_all2 (credential_calls 2024 example_config) example_credentials css"
    using Report_after_credential_loop
            [where remote = "remote_example None 2023" and thisYear = 2024
               and config = example_config and credentials = example_credentials
               and w = 0 and now = 1730498450 and ?r1.0 = reporterA and ?r2.0 = reporterB
               and qs = "[]" and ?now1.0 = 0 and ?now2.0 = 0]
    by blast
  have eq: "out = Returned None" "rep = reporterB" "st = state_AB"
    using loop loop' by simp_all
  have nonempty: "example_credentials \<noteq> []"
    by (simp add: example_credentials_def)
  have commits: "(\<Sum>e\<leftarrow>queryResults state_AB. commits_of (snd e)) = 4"
    by (simp add: state_AB_store commits_of_def example_response_def snapshot_def)
  have f1: "main_run (remote_example None 2023) 2024 1730498450 example_config
          example_credentials 0 = Some (Returned None, Some report_AB, state_AB)"
    using main eq Report_AB [of reporterB] by simp
  have f2: "reporterB = credential_reporter 2024 example_config (last example_credentials)"
    using fin eq nonempty by simp
  have f3: "calls state_AB = concat css"
    using calls eq by simp
  have f4: "list_all2 (credential_calls 2024 example_config) example_credentials css"
    using fin eq by simp
  have f5: "map fst (queryResults state_AB) = [''A-2024'', ''A-2023'', ''B-2024'', ''B-2023'']"
    by (simp add: state_AB_store)
  have f6: "sint (AggregatedResults.TotalCommitContributions
               (fst (Aggregate reporterB 1730498450 (queryResults state_AB)))) = 4"
    by (simp add: Aggregate_fields commits)
  show ?thesis
    by (intro exI [of _ state_AB] exI [of _ css] conjI
          f1 loop f2 f3 f4 state_AB_calls f5 Report_AB f6)
qed

text \<open>
  Claim C1. A query that fails is meant to abort the collection of its credential only:
  \<^verbatim>\<open>Collect\<close> has a \<^verbatim>\<open>return err\<close> and \<^verbatim>\<open>main\<close> prints the returned error and
  goes on to the next credential. In the code \<^verbatim>\<open>log.Fatal(err)\<close> comes first and ends
  the process. With a remote service that fails every query and the credentials A and
  B, \<^verbatim>\<open>Collect\<close> for A ends the process after the one query for 2024, nothing is
  returned to \<^verbatim>\<open>main\<close>, no query is made for B and no report is printed.
\<close>

theorem main_run_query_failure_exits:
  "Collect remote_failing reporterA state0 =
     Some (Exited,
           \<lparr>queryResults = [], world = 1,
            calls = [\<lparr>call_client = Some ''token-A'', call_login = ''A'', call_year = 2024,
                      call_error =
                        Some (QueryFailure ''non-200 OK status code: 401 Unauthorized''),
                      call_result = zero_QueryResult\<rparr>]\<rparr>)
   \<and> main_run remote_failing 2024 1730498450 example_config example_credentials 0 =
     Some (Exited, None,
           \<lparr>queryResults = [], world = 1,
            calls = [\<lparr>call_client = Some ''token-A'', call_login = ''A'', call_year = 2024,
                      call_error =
                        Some (QueryFailure ''non-200 OK status code: 401 Unauthorized''),
                      call_result = zero_QueryResult\<rparr>]\<rparr>)"
proof -
  have collect: "Collect remote_failing reporterA state0 =
     Some (Exited,
           \<lparr>queryResults = [], world = 1,
            calls = [\<lparr>call_client = Some ''token-A'', call_login = ''A'', call_year = 2024,
                      call_error =
                        Some (QueryFailure ''non-200 OK status code: 401 Unauthorized''),
                      call_result = zero_QueryResult\<rparr>]\<rparr>)"
    by (subst Collect_failing [of _ "''token-A''"])
       (simp_all add: reporter_simps state0_def word_sle_eq)
  have "main_run remote_failing 2024 1730498450 example_config example_credentials 0 =
     Some (Exited, None,
           \<lparr>queryResults = [], world = 1,
            calls = [\<lparr>call_client = Some ''token-A'', call_login = ''A'', call_year = 2024,
                      call_error =
                        Some (QueryFailure ''non-200 OK status code: 401 Unauthorized''),
                      call_result = zero_QueryResult\<rparr>]\<rparr>)"
    using collect
    by (simp add: main_run_def example_config_def example_credentials_def NewReporter_AB
          state0_def)
  then show ?thesis
    using collect by simp
qed

end
